theory Spec2Isabelle
  imports Main "HOL-Library.Char_ord"
begin

section \<open>JavaScript strings\<close>

text \<open>
  A JavaScript string is a sequence of UTF-16 code units. The model uses \<^typ>\<open>string\<close>,
  whose characters are the code units U+0000 to U+00FF: every literal that the
  functions modelled here read (platform keys, keywords, domains, URL templates, the
  regular expressions) lies in that range. The library functions below are the
  ECMAScript ones restricted to it.
\<close>

definition isWhiteSpace :: "char \<Rightarrow> bool" where
  \<comment> \<open>WhiteSpace and LineTerminator below U+0100: TAB, LF, VT, FF, CR, SP, NBSP.
     This is the set removed by \<open>trim()\<close> and matched by \<open>\s\<close>.\<close>
  "isWhiteSpace c = (c \<in> set [CHR 0x09, CHR 0x0A, CHR 0x0B, CHR 0x0C, CHR 0x0D, CHR 0x20, CHR 0xA0])"

definition trim :: "string \<Rightarrow> string" where
  \<comment> \<open>\<open>String.prototype.trim\<close>\<close>
  "trim s = rev (dropWhile isWhiteSpace (rev (dropWhile isWhiteSpace s)))"

definition lowerChar :: "char \<Rightarrow> char" where
  \<comment> \<open>the lower-case mapping of one code unit below U+0100: A-Z, and the Latin-1
     capitals U+00C0-U+00DE except the multiplication sign U+00D7\<close>
  "lowerChar c =
     (if (CHR ''A'' \<le> c \<and> c \<le> CHR ''Z'') \<or> (CHR 0xC0 \<le> c \<and> c \<le> CHR 0xDE \<and> c \<noteq> CHR 0xD7)
      then char_of (of_char c + (32::nat)) else c)"

definition toLowerCase :: "string \<Rightarrow> string" where
  \<comment> \<open>\<open>String.prototype.toLowerCase\<close>\<close>
  "toLowerCase s = map lowerChar s"

fun startsWith :: "string \<Rightarrow> string \<Rightarrow> bool" where
  \<comment> \<open>\<open>s.startsWith(t)\<close>: \<open>t\<close> is a prefix of \<open>s\<close>\<close>
  "startsWith s [] = True"
| "startsWith [] (y # ys) = False"
| "startsWith (x # xs) (y # ys) = (x = y \<and> startsWith xs ys)"

fun includes_str :: "string \<Rightarrow> string \<Rightarrow> bool" where
  \<comment> \<open>\<open>s.includes(t)\<close>: \<open>t\<close> occurs in \<open>s\<close> as a contiguous substring\<close>
  "includes_str [] t = (t = [])"
| "includes_str (x # xs) t = (startsWith (x # xs) t \<or> includes_str xs t)"

fun join :: "string \<Rightarrow> string list \<Rightarrow> string" where
  \<comment> \<open>\<open>parts.join(sep)\<close>\<close>
  "join sep [] = []"
| "join sep [p] = p"
| "join sep (p # q # ps) = p @ sep @ join sep (q # ps)"

function split_ws :: "string \<Rightarrow> string list" where
  \<comment> \<open>\<open>s.split(/\s+/)\<close>: every maximal run of white space is one separator; a
     separator at either end leaves an empty string there, and the empty input gives
     one empty string\<close>
  "split_ws [] = [[]]"
| "split_ws (c # cs) =
     (if isWhiteSpace c then [] # split_ws (dropWhile isWhiteSpace cs)
      else (case split_ws cs of [] \<Rightarrow> [[c]] | t # ts \<Rightarrow> (c # t) # ts))"
  by pat_completeness auto
termination
  by (relation "measure length") (auto simp: length_dropWhile_le less_Suc_eq_le)

fun getSubstitution :: "string \<Rightarrow> string \<Rightarrow> string \<Rightarrow> string \<Rightarrow> string" where
  \<comment> \<open>the replacement text of \<open>replace\<close> for a string pattern: in the template, \<open>$$\<close> is
     a dollar sign, \<open>$&\<close> the matched text, \<open>$`\<close> the text before and \<open>$'\<close> the text
     after the match; there are no groups, so every other \<open>$\<close> stands for itself\<close>
  "getSubstitution matched pre post [] = []"
| "getSubstitution matched pre post [c] = [c]"
| "getSubstitution matched pre post (c # d # t) =
     (if c = CHR 0x24 \<and> d = CHR 0x24 then CHR 0x24 # getSubstitution matched pre post t
      else if c = CHR 0x24 \<and> d = CHR 0x26 then matched @ getSubstitution matched pre post t
      else if c = CHR 0x24 \<and> d = CHR 0x60 then pre @ getSubstitution matched pre post t
      else if c = CHR 0x24 \<and> d = CHR 0x27 then post @ getSubstitution matched pre post t
      else c # getSubstitution matched pre post (d # t))"

fun replace_from :: "string \<Rightarrow> string \<Rightarrow> string \<Rightarrow> string \<Rightarrow> string" where
  \<comment> \<open>the search of \<open>replace\<close>: \<open>pre\<close> is the input already passed, reversed\<close>
  "replace_from pre s pat repl =
     (if startsWith s pat
      then rev pre @ getSubstitution pat (rev pre) (drop (length pat) s) repl
             @ drop (length pat) s
      else (case s of [] \<Rightarrow> rev pre | x # xs \<Rightarrow> replace_from (x # pre) xs pat repl))"

definition replace :: "string \<Rightarrow> string \<Rightarrow> string \<Rightarrow> string" where
  \<comment> \<open>\<open>s.replace(pat, repl)\<close> with a string pattern: only the first occurrence is replaced\<close>
  "replace s pat repl = replace_from [] s pat repl"

section \<open>Regular expressions\<close>

text \<open>
  The fragment of ECMAScript regular expressions that the three patterns of
  \<open>platforms.js\<close> use: literal characters, character classes, concatenation, the
  greedy optional group \<open>(?:r)?\<close>, greedy bounded and unbounded repetition of a
  character class (\<open>{m,n}\<close>, \<open>+\<close>, \<open>*\<close>), and capturing groups.
\<close>

datatype cls_item =
    Range char char   \<comment> \<open>\<open>a-z\<close>\<close>
  | Single char       \<comment> \<open>one listed character\<close>
  | WordChar          \<comment> \<open>\<open>\w\<close>, that is \<open>[A-Za-z0-9_]\<close>\<close>
  | AnyChar           \<comment> \<open>\<open>.\<close>: any character except a line terminator\<close>

fun in_item :: "cls_item \<Rightarrow> char \<Rightarrow> bool" where
  "in_item (Range a b) c = (a \<le> c \<and> c \<le> b)"
| "in_item (Single a) c = (c = a)"
| "in_item WordChar c =
     ((CHR ''A'' \<le> c \<and> c \<le> CHR ''Z'') \<or> (CHR ''a'' \<le> c \<and> c \<le> CHR ''z'')
      \<or> (CHR ''0'' \<le> c \<and> c \<le> CHR ''9'') \<or> c = CHR ''_'')"
| "in_item AnyChar c = (c \<noteq> CHR 0x0A \<and> c \<noteq> CHR 0x0D)"

definition in_cls :: "cls_item list \<Rightarrow> char \<Rightarrow> bool" where
  "in_cls items c = (\<exists>i \<in> set items. in_item i c)"

datatype regex =
    Chr char                                \<comment> \<open>a literal character\<close>
  | Cls "cls_item list"                     \<comment> \<open>\<open>[...]\<close>, one character of the class\<close>
  | Seq regex regex                         \<comment> \<open>\<open>r1 r2\<close>\<close>
  | Opt regex                               \<comment> \<open>\<open>(?:r)?\<close>, greedy\<close>
  | Rep "cls_item list" nat "nat option"    \<comment> \<open>\<open>[...]{lo,hi}\<close>, greedy; no upper bound for \<open>None\<close>\<close>
  | Grp nat regex                           \<comment> \<open>the capturing group with the given number\<close>
  | Eps                                     \<comment> \<open>the empty pattern\<close>

type_synonym captures = "string option list"

fun first_some :: "(nat \<Rightarrow> 'a option) \<Rightarrow> nat list \<Rightarrow> 'a option" where
  "first_some f [] = None"
| "first_some f (n # ns) = (case f n of Some r \<Rightarrow> Some r | None \<Rightarrow> first_some f ns)"

definition rep_max :: "nat option \<Rightarrow> nat \<Rightarrow> nat" where
  "rep_max hi n = (case hi of None \<Rightarrow> n | Some h \<Rightarrow> min h n)"

text \<open>
  The backtracking matcher, in continuation-passing style as in the ECMAScript
  specification: \<open>rmatch r s c k\<close> matches \<open>r\<close> at the head of \<open>s\<close> with the captures
  \<open>c\<close> and hands the rest of the input and the new captures to the continuation \<open>k\<close>;
  \<open>None\<close> is failure, on which the caller tries its next alternative. A greedy
  repetition tries the longest run first and gives characters back one at a time.
\<close>

fun rmatch :: "regex \<Rightarrow> string \<Rightarrow> captures \<Rightarrow> (string \<Rightarrow> captures \<Rightarrow> captures option) \<Rightarrow> captures option" where
  "rmatch (Chr a) s c k = (case s of [] \<Rightarrow> None | x # xs \<Rightarrow> if x = a then k xs c else None)"
| "rmatch (Cls cl) s c k = (case s of [] \<Rightarrow> None | x # xs \<Rightarrow> if in_cls cl x then k xs c else None)"
| "rmatch (Seq r1 r2) s c k = rmatch r1 s c (\<lambda>s' c'. rmatch r2 s' c' k)"
| "rmatch (Opt r) s c k = (case rmatch r s c k of Some res \<Rightarrow> Some res | None \<Rightarrow> k s c)"
| "rmatch (Rep cl lo hi) s c k =
     first_some (\<lambda>n. k (drop n s) c)
       (rev [lo ..< Suc (rep_max hi (length (takeWhile (in_cls cl) s)))])"
| "rmatch (Grp i r) s c k =
     rmatch r s c (\<lambda>s' c'. k s' (c'[i := Some (take (length s - length s') s)]))"
| "rmatch Eps s c k = k s c"

definition cat :: "regex list \<Rightarrow> regex" where
  "cat rs = foldr Seq rs Eps"

definition lit :: "string \<Rightarrow> regex" where
  "lit s = cat (map Chr s)"

definition js_match :: "regex \<Rightarrow> string \<Rightarrow> captures option" where
  \<comment> \<open>\<open>s.match(/^r$/)\<close> for a pattern without flags: \<open>^\<close> lets the match start at
     offset 0 only, \<open>$\<close> accepts only the end of the input. Entry 0 of the result is the
     whole match, entry \<open>i\<close> is group \<open>i\<close>, and \<open>None\<close> stands for \<open>undefined\<close>.\<close>
  "js_match r s =
     rmatch r s (replicate 5 None) (\<lambda>s' c. if s' = [] then Some (c[0 := Some s]) else None)"

text \<open>
  The declarative reading of a pattern, against which the matcher is checked:
  \<open>lang r w c c'\<close> holds when the word \<open>w\<close> is in the language of \<open>r\<close> and matching it
  turns the captures \<open>c\<close> into \<open>c'\<close>.
\<close>

fun lang :: "regex \<Rightarrow> string \<Rightarrow> captures \<Rightarrow> captures \<Rightarrow> bool" where
  "lang (Chr a) w c c' \<longleftrightarrow> w = [a] \<and> c' = c"
| "lang (Cls cl) w c c' \<longleftrightarrow> (\<exists>x. w = [x] \<and> in_cls cl x) \<and> c' = c"
| "lang (Seq r1 r2) w c c' \<longleftrightarrow>
     (\<exists>w1 w2 c1. w = w1 @ w2 \<and> lang r1 w1 c c1 \<and> lang r2 w2 c1 c')"
| "lang (Opt r) w c c' \<longleftrightarrow> lang r w c c' \<or> (w = [] \<and> c' = c)"
| "lang (Rep cl lo hi) w c c' \<longleftrightarrow>
     list_all (in_cls cl) w \<and> lo \<le> length w
     \<and> (case hi of None \<Rightarrow> True | Some h \<Rightarrow> length w \<le> h) \<and> c' = c"
| "lang (Grp i r) w c c' \<longleftrightarrow> (\<exists>c1. lang r w c c1 \<and> c' = c1[i := Some w])"
| "lang Eps w c c' \<longleftrightarrow> w = [] \<and> c' = c"

definition capture :: "captures \<Rightarrow> nat \<Rightarrow> string" where
  \<comment> \<open>entry \<open>i\<close> of a match result, destructured with the default \<open>''\<close> as in
     \<open>const [, owner, repo, path = ''] = match\<close>\<close>
  "capture caps i = (case caps ! i of Some w \<Rightarrow> w | None \<Rightarrow> [])"

section \<open>The platform table (\<open>platforms.js\<close>)\<close>

text \<open>
  One entry of \<open>PLATFORMS\<close>. The fields \<open>color\<close> and \<open>icon\<close> are presentation only and
  no function modelled here reads them; the flags \<open>singleName\<close> and \<open>allowAt\<close> are
  \<open>undefined\<close>, hence falsy, where the source leaves them out.
\<close>

record platform_config =
  name :: string
  keywords_list :: "string list"
  urlPattern :: string
  domain :: string
  singleName :: bool
  allowAt :: bool

definition PLATFORMS :: "(string \<times> platform_config) list" where
  \<comment> \<open>in the order of the object literal, which is the order of \<open>Object.entries\<close>\<close>
  "PLATFORMS =
    [(''github'', \<lparr>name = ''GitHub'', keywords_list = [''github'', ''gh''],
        urlPattern = ''https://github.com/{owner}/{repo}{path}'',
        domain = ''github.com'', singleName = False, allowAt = False\<rparr>),
     (''gitlab'', \<lparr>name = ''GitLab'', keywords_list = [''gitlab'', ''gl''],
        urlPattern = ''https://gitlab.com/{owner}/{repo}{path}'',
        domain = ''gitlab.com'', singleName = False, allowAt = False\<rparr>),
     (''bitbucket'', \<lparr>name = ''Bitbucket'', keywords_list = [''bitbucket'', ''bb''],
        urlPattern = ''https://bitbucket.org/{owner}/{repo}{path}'',
        domain = ''bitbucket.org'', singleName = False, allowAt = False\<rparr>),
     (''gitee'', \<lparr>name = ''Gitee'', keywords_list = [''gitee'', ''ge''],
        urlPattern = ''https://gitee.com/{owner}/{repo}{path}'',
        domain = ''gitee.com'', singleName = False, allowAt = False\<rparr>),
     (''npm'', \<lparr>name = ''npm'', keywords_list = [''npm'', ''npmjs''],
        urlPattern = ''https://www.npmjs.com/package/{owner}{path}'',
        domain = ''npmjs.com'', singleName = True, allowAt = True\<rparr>),
     (''docker'', \<lparr>name = ''Docker Hub'', keywords_list = [''docker'', ''dockerhub''],
        urlPattern = ''https://hub.docker.com/r/{owner}/{repo}{path}'',
        domain = ''hub.docker.com'', singleName = False, allowAt = False\<rparr>),
     (''pypi'', \<lparr>name = ''PyPI'', keywords_list = [''pypi'', ''pip'', ''python''],
        urlPattern = ''https://pypi.org/project/{owner}{path}'',
        domain = ''pypi.org'', singleName = True, allowAt = True\<rparr>),
     (''rubygems'', \<lparr>name = ''RubyGems'', keywords_list = [''gem'', ''rubygems'', ''ruby''],
        urlPattern = ''https://rubygems.org/gems/{owner}{path}'',
        domain = ''rubygems.org'', singleName = True, allowAt = False\<rparr>),
     (''packagist'', \<lparr>name = ''Packagist'', keywords_list = [''packagist'', ''composer'', ''php''],
        urlPattern = ''https://packagist.org/packages/{owner}/{repo}{path}'',
        domain = ''packagist.org'', singleName = False, allowAt = False\<rparr>),
     (''crates'', \<lparr>name = ''crates.io'', keywords_list = [''crates'', ''cargo'', ''rust''],
        urlPattern = ''https://crates.io/crates/{owner}{path}'',
        domain = ''crates.io'', singleName = True, allowAt = False\<rparr>),
     (''nuget'', \<lparr>name = ''NuGet'', keywords_list = [''nuget'', ''dotnet'', ''csharp''],
        urlPattern = ''https://www.nuget.org/packages/{owner}{path}'',
        domain = ''nuget.org'', singleName = True, allowAt = False\<rparr>),
     (''maven'', \<lparr>name = ''Maven Central'', keywords_list = [''maven'', ''mvn'', ''java''],
        urlPattern = ''https://search.maven.org/artifact/{owner}/{repo}{path}'',
        domain = ''search.maven.org'', singleName = False, allowAt = False\<rparr>),
     (''zerocat'', \<lparr>name = ''ZeroCat'', keywords_list = [''zerocat'', ''zc''],
        urlPattern = ''https://zerocat.dev/{owner}/{repo}{path}'',
        domain = ''zerocat.dev'', singleName = False, allowAt = False\<rparr>)]"

text \<open>
  \<open>PLATFORMS[key]\<close> is a property read on an object literal: it finds the table's own
  entries and, for any other key, the properties that every object inherits from
  \<open>Object.prototype\<close>. Those are functions (and, for \<open>__proto__\<close>, the prototype object
  itself): truthy values without a field \<open>urlPattern\<close>.
\<close>

datatype 'a property = Own 'a | Inherited | Undefined

definition Object_prototype :: "string list" where
  "Object_prototype =
    [''constructor'', ''hasOwnProperty'', ''isPrototypeOf'', ''propertyIsEnumerable'',
     ''toLocaleString'', ''toString'', ''valueOf'', ''__proto__'',
     ''__defineGetter__'', ''__defineSetter__'', ''__lookupGetter__'', ''__lookupSetter__'']"

definition PLATFORMS_get :: "string \<Rightarrow> platform_config property" where
  "PLATFORMS_get key =
     (case map_of PLATFORMS key of
        Some config \<Rightarrow> Own config
      | None \<Rightarrow> if key \<in> set Object_prototype then Inherited else Undefined)"

section \<open>Looking platforms up and building URLs\<close>

fun keyword_loop :: "string \<Rightarrow> (string \<times> platform_config) list \<Rightarrow> string option" where
  \<comment> \<open>the \<open>for\<close> loop of \<open>findPlatformByKeyword\<close> over the remaining entries\<close>
  "keyword_loop lowerKeyword [] = None"
| "keyword_loop lowerKeyword ((key, config) # rest) =
     (if lowerKeyword \<in> set (keywords_list config) then Some key
      else keyword_loop lowerKeyword rest)"

definition findPlatformByKeyword :: "string \<Rightarrow> string option" where
  "findPlatformByKeyword keyword = keyword_loop (toLowerCase keyword) PLATFORMS"

fun domain_loop :: "string \<Rightarrow> (string \<times> platform_config) list \<Rightarrow> string option" where
  \<comment> \<open>the \<open>for\<close> loop of \<open>findPlatformByDomain\<close> over the remaining entries\<close>
  "domain_loop lowerDomain [] = None"
| "domain_loop lowerDomain ((key, config) # rest) =
     (if includes_str lowerDomain (domain config) \<or> includes_str (domain config) lowerDomain
      then Some key
      else domain_loop lowerDomain rest)"

definition findPlatformByDomain :: "string \<Rightarrow> string option" where
  "findPlatformByDomain d = domain_loop (toLowerCase d) PLATFORMS"

datatype js_error = TypeError

definition buildRepoUrl :: "string \<Rightarrow> string \<Rightarrow> string \<Rightarrow> string \<Rightarrow> js_error + string option" where
  \<comment> \<open>\<open>Inr None\<close> is the result \<open>null\<close>. An inherited property passes the test
     \<open>!config\<close>, its \<open>urlPattern\<close> is \<open>undefined\<close>, and calling \<open>replace\<close> on that throws.\<close>
  "buildRepoUrl platform owner repo path =
     (case PLATFORMS_get platform of
        Undefined \<Rightarrow> Inr None
      | Inherited \<Rightarrow> Inl TypeError
      | Own config \<Rightarrow>
          Inr (Some (replace (replace (replace (urlPattern config)
                 ''{owner}'' owner) ''{repo}'' repo) ''{path}'' path)))"

section \<open>Bypass patterns and the jump ledger (\<open>background.js\<close>)\<close>

definition DEFAULT_BYPASS_PATTERNS :: "string list" where
  "DEFAULT_BYPASS_PATTERNS = [''localhost'']"

definition getBypassPatterns :: "string list \<Rightarrow> string list" where
  \<comment> \<open>the argument is the stored list \<open>customBypassPatterns\<close>\<close>
  "getBypassPatterns customBypassPatterns = DEFAULT_BYPASS_PATTERNS @ customBypassPatterns"

fun bypass_loop :: "string \<Rightarrow> string list \<Rightarrow> bool" where
  \<comment> \<open>the \<open>for\<close> loop of \<open>shouldBypass\<close> over the remaining patterns\<close>
  "bypass_loop urlLower [] = False"
| "bypass_loop urlLower (pattern # rest) =
     (if includes_str urlLower (toLowerCase pattern) then True else bypass_loop urlLower rest)"

definition shouldBypass :: "string \<Rightarrow> string list \<Rightarrow> bool" where
  "shouldBypass url bypassPatterns = bypass_loop (toLowerCase url) bypassPatterns"

text \<open>
  \<open>recentJumps\<close> is a \<open>Map\<close> from keys to the \<open>Date.now()\<close> of the last jump, in
  milliseconds. The functions take the map and the clock reading and return the map
  they leave behind.
\<close>

type_synonym jumps = "string \<rightharpoonup> int"

definition jumpKey :: "string \<Rightarrow> string \<Rightarrow> string \<Rightarrow> string" where
  \<comment> \<open>\<open>`${platform}:${owner}/${repo}`\<close>\<close>
  "jumpKey platform owner repo = platform @ '':'' @ owner @ ''/'' @ repo"

definition isRecentJump :: "string \<Rightarrow> string \<Rightarrow> string \<Rightarrow> int \<Rightarrow> jumps \<Rightarrow> bool \<times> jumps" where
  \<comment> \<open>\<open>!lastJump\<close> holds for a missing entry and for the number 0\<close>
  "isRecentJump platform owner repo now recentJumps =
     (let key = jumpKey platform owner repo in
      case recentJumps key of
        None \<Rightarrow> (False, recentJumps)
      | Some lastJump \<Rightarrow>
          if lastJump = 0 then (False, recentJumps)
          else if now - lastJump < 5000 then (True, recentJumps)
          else (False, recentJumps(key := None)))"

definition recordJump :: "string \<Rightarrow> string \<Rightarrow> string \<Rightarrow> int \<Rightarrow> jumps \<Rightarrow> jumps" where
  \<comment> \<open>the entry is written at once; the timer started here runs \<open>purgeJump\<close> later\<close>
  "recordJump platform owner repo now recentJumps =
     recentJumps(jumpKey platform owner repo \<mapsto> now)"

definition purgeJump :: "string \<Rightarrow> int \<Rightarrow> jumps \<Rightarrow> jumps" where
  \<comment> \<open>the callback that \<open>recordJump\<close> hands to \<open>setTimeout\<close>, run at clock reading \<open>now\<close>\<close>
  "purgeJump key now recentJumps =
     (case recentJumps key of
        None \<Rightarrow> recentJumps
      | Some timestamp \<Rightarrow>
          if timestamp \<noteq> 0 \<and> now - timestamp \<ge> 10000 then recentJumps(key := None)
          else recentJumps)"

text \<open>
  What may happen to the ledger between two moments: a check, a record, or a timer
  callback, each with the clock reading at which it runs.
\<close>

datatype ledger_event =
    Check string string string int
  | Record string string string int
  | Purge string int

fun ledger_step :: "ledger_event \<Rightarrow> jumps \<Rightarrow> jumps" where
  "ledger_step (Check p ow r now) m = snd (isRecentJump p ow r now m)"
| "ledger_step (Record p ow r now) m = recordJump p ow r now m"
| "ledger_step (Purge key now) m = purgeJump key now m"

fun ledger_run :: "ledger_event list \<Rightarrow> jumps \<Rightarrow> jumps" where
  "ledger_run [] m = m"
| "ledger_run (e # es) m = ledger_run es (ledger_step e m)"

fun records_key :: "string \<Rightarrow> ledger_event \<Rightarrow> bool" where
  "records_key key (Record p ow r now) = (jumpKey p ow r = key)"
| "records_key key e = False"

fun event_time :: "ledger_event \<Rightarrow> int" where
  "event_time (Check p ow r now) = now"
| "event_time (Record p ow r now) = now"
| "event_time (Purge key now) = now"

section \<open>The patterns and the parsers (\<open>platforms.js\<close>)\<close>

definition alnum :: "cls_item list" where
  \<comment> \<open>\<open>[a-zA-Z0-9]\<close>\<close>
  "alnum = [Range CHR ''a'' CHR ''z'', Range CHR ''A'' CHR ''Z'', Range CHR ''0'' CHR ''9'']"

definition alnum_hyphen :: "cls_item list" where
  \<comment> \<open>\<open>[a-zA-Z0-9-]\<close>\<close>
  "alnum_hyphen = [Range CHR ''a'' CHR ''z'', Range CHR ''A'' CHR ''Z'', Range CHR ''0'' CHR ''9'',
                   Single CHR ''-'']"

definition host_chars :: "cls_item list" where
  \<comment> \<open>\<open>[a-zA-Z0-9.-]\<close>\<close>
  "host_chars = [Range CHR ''a'' CHR ''z'', Range CHR ''A'' CHR ''Z'', Range CHR ''0'' CHR ''9'',
                 Single CHR ''.'', Single CHR ''-'']"

definition repo_chars :: "cls_item list" where
  \<comment> \<open>\<open>[\w.-]\<close>\<close>
  "repo_chars = [WordChar, Single CHR ''.'', Single CHR ''-'']"

definition owner_re :: regex where
  \<comment> \<open>\<open>[a-zA-Z0-9](?:[a-zA-Z0-9-]{0,37}[a-zA-Z0-9])?\<close>\<close>
  "owner_re = Seq (Cls alnum) (Opt (Seq (Rep alnum_hyphen 0 (Some 37)) (Cls alnum)))"

definition path_re :: regex where
  \<comment> \<open>\<open>\/.*\<close>\<close>
  "path_re = Seq (Chr CHR ''/'') (Rep [AnyChar] 0 None)"

definition REPO_PATTERN :: regex where
  \<comment> \<open>\<open>/^([a-zA-Z0-9](?:[a-zA-Z0-9-]{0,37}[a-zA-Z0-9])?)\/([\w.-]{1,100})$/\<close>\<close>
  "REPO_PATTERN =
     cat [Grp 1 owner_re, Chr CHR ''/'', Grp 2 (Rep repo_chars 1 (Some 100))]"

definition REPO_WITH_PATH_PATTERN :: regex where
  \<comment> \<open>\<open>/^([a-zA-Z0-9](?:[a-zA-Z0-9-]{0,37}[a-zA-Z0-9])?)\/([\w.-]+)(\/.*)?$/\<close>\<close>
  "REPO_WITH_PATH_PATTERN =
     cat [Grp 1 owner_re, Chr CHR ''/'', Grp 2 (Rep repo_chars 1 None), Opt (Grp 3 path_re)]"

definition FULL_URL_PATTERN :: regex where
  \<comment> \<open>\<open>/^(?:https?:\/\/)?(?:www\.)?([a-zA-Z0-9.-]+)\/([a-zA-Z0-9](?:[a-zA-Z0-9-]{0,37}[a-zA-Z0-9])?)\/([\w.-]+)(\/.*)?$/\<close>\<close>
  "FULL_URL_PATTERN =
     cat [Opt (cat [lit ''http'', Opt (Chr CHR ''s''), lit ''://'']),
          Opt (lit ''www.''),
          Grp 1 (Rep host_chars 1 None), Chr CHR ''/'',
          Grp 2 owner_re, Chr CHR ''/'',
          Grp 3 (Rep repo_chars 1 None), Opt (Grp 4 path_re)]"

record target =
  platform :: string
  owner :: string
  repo :: string
  path :: string

definition defaultPlatform :: "string option \<Rightarrow> string" where
  \<comment> \<open>\<open>(typeof DEFAULT_PLATFORM !== 'undefined') ? DEFAULT_PLATFORM : 'github'\<close>; the
     argument is the global variable of \<open>background.js\<close>, \<open>None\<close> where no script
     declares it\<close>
  "defaultPlatform dp = (case dp of Some p \<Rightarrow> p | None \<Rightarrow> ''github'')"

definition parseRepoInput :: "string option \<Rightarrow> string \<Rightarrow> target option" where
  "parseRepoInput dp input =
     (if input = [] then None
      else let trimmed = trim input in
      if trimmed = [] then None
      else case (case js_match FULL_URL_PATTERN trimmed of
                   None \<Rightarrow> None
                 | Some m \<Rightarrow>
                     (case findPlatformByDomain (capture m 1) of
                        None \<Rightarrow> None
                      | Some p \<Rightarrow> Some \<lparr>platform = p, owner = capture m 2,
                                         repo = capture m 3, path = capture m 4\<rparr>)) of
             Some t \<Rightarrow> Some t
           | None \<Rightarrow>
               (case js_match REPO_WITH_PATH_PATTERN trimmed of
                  Some m \<Rightarrow> Some \<lparr>platform = defaultPlatform dp, owner = capture m 1,
                                    repo = capture m 2, path = capture m 3\<rparr>
                | None \<Rightarrow>
                    (case js_match REPO_PATTERN trimmed of
                       Some m \<Rightarrow> Some \<lparr>platform = defaultPlatform dp, owner = capture m 1,
                                         repo = capture m 2, path = []\<rparr>
                     | None \<Rightarrow> None)))"

definition parseSearchQuery :: "string option \<Rightarrow> string \<Rightarrow> target option" where
  "parseSearchQuery dp query =
     (if query = [] then None
      else let trimmed = trim query in
      if trimmed = [] then None
      else let parts = split_ws trimmed;
               (detectedPlatform, cleanQuery) =
                 (if length parts \<ge> 2 then
                    (case findPlatformByKeyword (parts ! 0) of
                       Some firstPlatform \<Rightarrow> (firstPlatform, join '' '' (drop 1 parts))
                     | None \<Rightarrow>
                         (case findPlatformByKeyword (parts ! (length parts - 1)) of
                            Some lastPlatform \<Rightarrow>
                              (lastPlatform, join '' '' (take (length parts - 1) parts))
                          | None \<Rightarrow> (defaultPlatform dp, trimmed)))
                  else (defaultPlatform dp, trimmed))
           in (case parseRepoInput dp cleanQuery of
                 Some result \<Rightarrow> Some (result\<lparr>platform := detectedPlatform\<rparr>)
               | None \<Rightarrow> None))"

section \<open>Opening a resolved target (\<open>background.js\<close>)\<close>

definition openRepoUnified :: "target \<Rightarrow> js_error + string option" where
  \<comment> \<open>the URL that \<open>openRepoUnified\<close> navigates to; \<open>Inr None\<close> where it returns
     \<open>null\<close> before any navigation\<close>
  "openRepoUnified t =
     (if platform t = [] \<or> owner t = [] then Inr None
      else case buildRepoUrl (platform t) (owner t) (repo t) (path t) of
             Inl e \<Rightarrow> Inl e
           | Inr None \<Rightarrow> Inr None
           | Inr (Some repoUrl) \<Rightarrow> if repoUrl = [] then Inr None else Inr (Some repoUrl))"

section \<open>The listener for navigations to a search engine (\<open>background.js\<close>)\<close>

text \<open>
  The listener reads \<open>details.url\<close> through \<open>new URL(details.url)\<close> only: the host
  name, and the search parameters, a list of pairs of a name and a value in the order
  of the query string. Both are fields of the record beside the URL they are parsed
  from.
\<close>

record navigation_details =
  frameId :: int
  url :: string
  hostname :: string  \<comment> \<open>\<open>new URL(details.url).hostname\<close>\<close>
  searchParams :: "(string \<times> string) list"  \<comment> \<open>\<open>new URL(details.url).searchParams\<close>\<close>

definition excludePatterns :: "string list" where
  "excludePatterns =
     [''github.com'', ''gitlab.com'', ''bitbucket.org'', ''gitee.com'', ''localhost'',
      ''127.0.0.1'', ''192.168.'', ''10.0.'', ''172.16.'']"

definition searchParamNames :: "string list" where
  \<comment> \<open>the array \<open>searchParams\<close> of \<open>extractSearchQuery\<close> and of
     \<open>isPossibleSearchEngine\<close>, the same twelve names in the same order\<close>
  "searchParamNames =
     [''q'', ''query'', ''search'', ''wd'', ''word'', ''text'', ''s'', ''search_query'', ''k'',
      ''keywords'', ''qt'', ''p'']"

definition searchParams_has :: "(string \<times> string) list \<Rightarrow> string \<Rightarrow> bool" where
  \<comment> \<open>\<open>urlObj.searchParams.has(param)\<close>\<close>
  "searchParams_has entries param = list_ex (\<lambda>(name', v). name' = param) entries"

definition searchParams_get :: "(string \<times> string) list \<Rightarrow> string \<Rightarrow> string option" where
  \<comment> \<open>\<open>urlObj.searchParams.get(param)\<close>: the value of the first pair of that name,
     \<open>null\<close> where there is none\<close>
  "searchParams_get entries param = map_of entries param"

fun extract_loop :: "(string \<times> string) list \<Rightarrow> string list \<Rightarrow> string option" where
  \<comment> \<open>the \<open>for\<close> loop of \<open>extractSearchQuery\<close> over the remaining names; the test
     \<open>value && value.trim()\<close> fails on \<open>null\<close>, on the empty string and on white space\<close>
  "extract_loop entries [] = None"
| "extract_loop entries (param # rest) =
     (case searchParams_get entries param of
        None \<Rightarrow> extract_loop entries rest
      | Some v \<Rightarrow> if v \<noteq> [] \<and> trim v \<noteq> [] then Some v else extract_loop entries rest)"

definition extractSearchQuery :: "navigation_details \<Rightarrow> string option" where
  "extractSearchQuery details = extract_loop (searchParams details) searchParamNames"

definition isPossibleSearchEngine :: "navigation_details \<Rightarrow> bool" where
  "isPossibleSearchEngine details =
     (if list_ex (\<lambda>pattern. includes_str (hostname details) pattern) excludePatterns then False
      else list_ex (\<lambda>param. searchParams_has (searchParams details) param) searchParamNames)"

datatype search_effect =
    NoEffect  \<comment> \<open>the listener returns and the navigation goes on\<close>
  | StoreJump target  \<comment> \<open>mode \<open>tabJump\<close>: the target is stored for the tab, to be opened
                         when the user presses Tab\<close>
  | OpenUrl string  \<comment> \<open>\<open>openRepoUnified\<close> opens this URL, in the tab itself or, in mode
                       \<open>newTab\<close>, in a new one\<close>

definition onBeforeNavigate ::
  "bool \<Rightarrow> string \<Rightarrow> string option \<Rightarrow> int \<Rightarrow> int \<Rightarrow> navigation_details \<Rightarrow> jumps
     \<Rightarrow> search_effect \<times> jumps" where
  \<comment> \<open>the listener of \<open>chrome.webNavigation.onBeforeNavigate\<close>: what it does to the tab,
     and the ledger afterwards. The arguments are the stored switch
     \<open>featureSearchRedirect\<close>, the stored \<open>searchRedirectMode\<close>, \<open>DEFAULT_PLATFORM\<close> and the
     two readings of the clock, by \<open>isRecentJump\<close> and by \<open>recordJump\<close>. The stored
     bypass list is not among them: the listener never calls \<open>getBypassPatterns\<close>. An
     exception inside the \<open>try\<close> block is caught and only logged.\<close>
  "onBeforeNavigate featureSearchRedirect searchRedirectMode dp now now' details recentJumps =
     (if frameId details \<noteq> 0 then (NoEffect, recentJumps)
      else if \<not> featureSearchRedirect then (NoEffect, recentJumps)
      else if \<not> isPossibleSearchEngine details then (NoEffect, recentJumps)
      else case extractSearchQuery details of
          None \<Rightarrow> (NoEffect, recentJumps)
        | Some searchQuery \<Rightarrow>
            (case parseSearchQuery dp searchQuery of
               None \<Rightarrow> (NoEffect, recentJumps)
             | Some parsed \<Rightarrow>
                 (case isRecentJump (platform parsed) (owner parsed) (repo parsed) now
                         recentJumps of
                    (True, recentJumps') \<Rightarrow> (NoEffect, recentJumps')
                  | (False, recentJumps') \<Rightarrow>
                      if searchRedirectMode = ''tabJump'' then (StoreJump parsed, recentJumps')
                      else
                        (let recorded = recordJump (platform parsed) (owner parsed)
                                          (repo parsed) now' recentJumps'
                         in case openRepoUnified parsed of
                              Inl e \<Rightarrow> (NoEffect, recorded)
                            | Inr None \<Rightarrow> (NoEffect, recorded)
                            | Inr (Some repoUrl) \<Rightarrow> (OpenUrl repoUrl, recorded)))))"

section \<open>The listener for failed name resolution (\<open>background.js\<close>)\<close>

definition strip_slashes :: "string \<Rightarrow> string" where
  \<comment> \<open>\<open>.replace(/^\//, '').replace(/\/$/, '')\<close>\<close>
  "strip_slashes s =
     (let s1 = (case s of [] \<Rightarrow> [] | c # cs \<Rightarrow> if c = CHR ''/'' then cs else s)
      in if s1 \<noteq> [] \<and> last s1 = CHR ''/'' then butlast s1 else s1)"

record error_details =
  frameId :: int
  error :: string
  url :: string
  hostname :: string  \<comment> \<open>\<open>new URL(details.url).hostname\<close>\<close>
  pathname :: string  \<comment> \<open>\<open>new URL(details.url).pathname\<close>\<close>

definition onErrorOccurred ::
  "bool \<Rightarrow> string list \<Rightarrow> string option \<Rightarrow> int \<Rightarrow> int \<Rightarrow> error_details \<Rightarrow> jumps
     \<Rightarrow> string option \<times> jumps" where
  \<comment> \<open>the listener of \<open>chrome.webNavigation.onErrorOccurred\<close>: the URL the tab is sent
     to, if any, and the ledger afterwards. The arguments are the stored switch
     \<open>featureDnsIntercept\<close>, the stored \<open>customBypassPatterns\<close>, \<open>DEFAULT_PLATFORM\<close> and
     the two readings of the clock, by \<open>isRecentJump\<close> and by \<open>recordJump\<close>. An
     exception inside the \<open>try\<close> block is caught and only logged.\<close>
  "onErrorOccurred featureDnsIntercept customBypassPatterns dp now now' details recentJumps =
     (if frameId details \<noteq> 0 then (None, recentJumps)
      else if error details \<noteq> ''net::ERR_NAME_NOT_RESOLVED'' then (None, recentJumps)
      else if \<not> featureDnsIntercept then (None, recentJumps)
      else if findPlatformByDomain (hostname details) \<noteq> None then (None, recentJumps)
      else if shouldBypass (url details) (getBypassPatterns customBypassPatterns)
        then (None, recentJumps)
      else let fullPath = strip_slashes (hostname details @ pathname details) in
        case parseRepoInput dp fullPath of
          None \<Rightarrow> (None, recentJumps)
        | Some parsed \<Rightarrow>
            (case isRecentJump (platform parsed) (owner parsed) (repo parsed) now recentJumps of
               (True, recentJumps') \<Rightarrow> (None, recentJumps')
             | (False, recentJumps') \<Rightarrow>
                 (let recorded = recordJump (platform parsed) (owner parsed) (repo parsed)
                                   now' recentJumps'
                  in case openRepoUnified parsed of
                       Inl e \<Rightarrow> (None, recorded)
                     | Inr None \<Rightarrow> (None, recorded)
                     | Inr (Some repoUrl) \<Rightarrow> (Some repoUrl, recorded))))"

section \<open>The address-bar listener (\<open>background.js\<close>)\<close>

text \<open>
  Reading a field of \<open>PLATFORMS[key]\<close>: on an inherited property the field is
  \<open>undefined\<close>, which a template literal prints as the word and a condition takes for
  false; on \<open>undefined\<close> itself the read throws.
\<close>

definition config_domain :: "platform_config property \<Rightarrow> js_error + string" where
  "config_domain cfg =
     (case cfg of
        Own c \<Rightarrow> Inr (domain c)
      | Inherited \<Rightarrow> Inr ''undefined''
      | Undefined \<Rightarrow> Inl TypeError)"

definition config_singleName :: "platform_config property \<Rightarrow> js_error + bool" where
  "config_singleName cfg =
     (case cfg of
        Own c \<Rightarrow> Inr (singleName c)
      | Inherited \<Rightarrow> Inr False
      | Undefined \<Rightarrow> Inl TypeError)"

definition default_first ::
  "string \<Rightarrow> (string \<times> platform_config) list \<Rightarrow> (string \<times> platform_config) list" where
  \<comment> \<open>the stable \<open>sort\<close> whose comparator puts the entry of the default platform
     before every other and leaves the others as they stand\<close>
  "default_first d entries =
     filter (\<lambda>(key, cfg). key = d) entries @ filter (\<lambda>(key, cfg). key \<noteq> d) entries"

definition open_built :: "string \<Rightarrow> string \<Rightarrow> string \<Rightarrow> string \<Rightarrow> js_error + string option" where
  \<comment> \<open>step 6 of the listener: build the URL and open it unless it is \<open>null\<close> or empty\<close>
  "open_built platform' owner' repo' path' =
     (case buildRepoUrl platform' owner' repo' path' of
        Inl e \<Rightarrow> Inl e
      | Inr None \<Rightarrow> Inr None
      | Inr (Some repoUrl) \<Rightarrow> if repoUrl = [] then Inr None else Inr (Some repoUrl))"

definition onInputEntered :: "bool \<Rightarrow> string \<Rightarrow> string \<Rightarrow> js_error + string option" where
  \<comment> \<open>the listener of \<open>chrome.omnibox.onInputEntered\<close>: the URL it opens, if any. The
     arguments are the stored switch \<open>featureOmnibox\<close>, the variable \<open>DEFAULT_PLATFORM\<close>
     and the text entered.\<close>
  "onInputEntered featureOmnibox DEFAULT_PLATFORM text =
     (if \<not> featureOmnibox then Inr None
      else let trimmedText = trim text in
      if trimmedText = [] then Inr None
      else case js_match FULL_URL_PATTERN trimmedText of
        Some urlMatch \<Rightarrow>
          (case findPlatformByDomain (capture urlMatch 1) of
             Some detectedPlatform \<Rightarrow>
               open_built detectedPlatform (capture urlMatch 2) (capture urlMatch 3)
                 (capture urlMatch 4)
           | None \<Rightarrow> open_built DEFAULT_PLATFORM [] [] [])
      | None \<Rightarrow>
          if \<not> includes_str trimmedText ''/'' \<and> \<not> list_ex isWhiteSpace trimmedText then
            (let lower = toLowerCase trimmedText;
                 matchedPlatforms =
                   filter (\<lambda>(key, cfg). list_ex (\<lambda>kw. startsWith kw lower) (keywords_list cfg))
                     PLATFORMS
             in case default_first DEFAULT_PLATFORM matchedPlatforms of
                  (firstKey, firstCfg) # others \<Rightarrow>
                    Inr (Some (''https://'' @ domain firstCfg @ ''/''))
                | [] \<Rightarrow>
                    (case config_domain (PLATFORMS_get DEFAULT_PLATFORM) of
                       Inl e \<Rightarrow> Inl e
                     | Inr d \<Rightarrow> Inr (Some (''https://'' @ d @ ''/'' @ trimmedText))))
          else
            (let parts = split_ws trimmedText;
                 (platform', inputName) =
                   (if length parts \<ge> 2 then
                      (case findPlatformByKeyword (parts ! 0) of
                         Some firstPlatform \<Rightarrow> (firstPlatform, join '' '' (drop 1 parts))
                       | None \<Rightarrow>
                           (case findPlatformByKeyword (parts ! (length parts - 1)) of
                              Some lastPlatform \<Rightarrow>
                                (lastPlatform, join '' '' (take (length parts - 1) parts))
                            | None \<Rightarrow> (DEFAULT_PLATFORM, trimmedText)))
                    else (DEFAULT_PLATFORM, trimmedText))
             in case config_singleName (PLATFORMS_get platform') of
                  Inl e \<Rightarrow> Inl e
                | Inr True \<Rightarrow> open_built platform' inputName [] []
                | Inr False \<Rightarrow>
                    if includes_str inputName ''/'' then
                      (case (case js_match REPO_WITH_PATH_PATTERN inputName of
                               Some m \<Rightarrow> Some m
                             | None \<Rightarrow> js_match REPO_PATTERN inputName) of
                         Some m \<Rightarrow> open_built platform' (capture m 1) (capture m 2) (capture m 3)
                       | None \<Rightarrow> open_built platform' [] [] [])
                    else
                      (case config_domain (PLATFORMS_get platform') of
                         Inl e \<Rightarrow> Inl e
                       | Inr d \<Rightarrow> Inr (Some (''https://'' @ d @ ''/'' @ inputName)))))"

section \<open>The syntax of a resolved target, as the specification words it\<close>

definition is_alnum :: "char \<Rightarrow> bool" where
  "is_alnum c \<longleftrightarrow> (CHR ''a'' \<le> c \<and> c \<le> CHR ''z'') \<or> (CHR ''A'' \<le> c \<and> c \<le> CHR ''Z'')
                 \<or> (CHR ''0'' \<le> c \<and> c \<le> CHR ''9'')"

definition owner_syntax :: "string \<Rightarrow> bool" where
  \<comment> \<open>1 to 39 characters, alphanumeric or hyphen, no hyphen first or last\<close>
  "owner_syntax w \<longleftrightarrow> 1 \<le> length w \<and> length w \<le> 39
     \<and> list_all (\<lambda>c. is_alnum c \<or> c = CHR ''-'') w \<and> hd w \<noteq> CHR ''-'' \<and> last w \<noteq> CHR ''-''"

definition repo_alphabet :: "string \<Rightarrow> bool" where
  \<comment> \<open>only alphanumerics, \<open>.\<close>, \<open>-\<close> and \<open>_\<close>\<close>
  "repo_alphabet w \<longleftrightarrow>
     list_all (\<lambda>c. is_alnum c \<or> c = CHR ''_'' \<or> c = CHR ''.'' \<or> c = CHR ''-'') w"

definition repo_syntax :: "string \<Rightarrow> bool" where
  \<comment> \<open>1 to 100 characters of that alphabet\<close>
  "repo_syntax w \<longleftrightarrow> 1 \<le> length w \<and> length w \<le> 100 \<and> repo_alphabet w"

definition path_syntax :: "string \<Rightarrow> bool" where
  \<comment> \<open>empty, or beginning with a slash\<close>
  "path_syntax p \<longleftrightarrow> p = [] \<or> hd p = CHR ''/''"

section \<open>Strings: substrings\<close>

lemma startsWith_iff: "startsWith s t \<longleftrightarrow> (\<exists>b. s = t @ b)"
  by (induction s t rule: startsWith.induct) auto

lemma includes_str_iff: "includes_str s t \<longleftrightarrow> (\<exists>a b. s = a @ t @ b)"
proof (induction s)
  case Nil
  then show ?case by auto
next
  case (Cons x xs)
  show ?case
  proof
    assume "includes_str (x # xs) t"
    then consider "startsWith (x # xs) t" | "includes_str xs t" by auto
    then show "\<exists>a b. x # xs = a @ t @ b"
    proof cases
      case 1
      then obtain b where "x # xs = t @ b" by (auto simp: startsWith_iff)
      then have "x # xs = [] @ t @ b" by simp
      then show ?thesis by blast
    next
      case 2
      then obtain a b where "xs = a @ t @ b" using Cons.IH by blast
      then have "x # xs = (x # a) @ t @ b" by simp
      then show ?thesis by blast
    qed
  next
    assume "\<exists>a b. x # xs = a @ t @ b"
    then obtain a b where ab: "x # xs = a @ t @ b" by blast
    show "includes_str (x # xs) t"
    proof (cases a)
      case Nil
      with ab have "startsWith (x # xs) t" by (auto simp: startsWith_iff)
      then show ?thesis by simp
    next
      case (Cons y ys)
      with ab have "xs = ys @ t @ b" by simp
      then have "includes_str xs t" using Cons.IH by blast
      then show ?thesis by simp
    qed
  qed
qed

lemma toLowerCase_append: "toLowerCase (a @ b) = toLowerCase a @ toLowerCase b"
  by (simp add: toLowerCase_def)

section \<open>The matcher against the declarative reading\<close>

text \<open>
  Soundness: whatever the matcher returns, it returns for a split of the input into a
  word of the pattern's language and a rest that the continuation accepts.
  Completeness: if the input has such a split, the matcher does not fail. The captures
  of the match it finds are pinned down pattern by pattern further on, where the split
  is unique.
\<close>

lemma first_some_SomeD: "first_some f ns = Some r \<Longrightarrow> \<exists>n \<in> set ns. f n = Some r"
  by (induction ns) (auto split: option.splits)

lemma first_some_not_None: "n \<in> set ns \<Longrightarrow> f n \<noteq> None \<Longrightarrow> first_some f ns \<noteq> None"
  by (induction ns) (auto split: option.splits)

lemma take_takeWhile_all:
  "n \<le> length (takeWhile P s) \<Longrightarrow> list_all P (take n s)"
proof (induction s arbitrary: n)
  case Nil
  then show ?case by simp
next
  case (Cons x xs)
  then show ?case by (cases n) (auto split: if_splits)
qed

lemma length_takeWhile_append_ge:
  "list_all P w \<Longrightarrow> length w \<le> length (takeWhile P (w @ s))"
  by (induction w) auto

lemma rmatch_sound:
  "rmatch r s c k = Some res \<Longrightarrow> \<exists>w s' c'. s = w @ s' \<and> lang r w c c' \<and> k s' c' = Some res"
proof (induction r arbitrary: s c k res)
  case (Chr a)
  then show ?case by (auto split: list.splits if_splits)
next
  case (Cls cl)
  then obtain x xs where "s = [x] @ xs" "in_cls cl x" "k xs c = Some res"
    by (auto split: list.splits if_splits)
  moreover from this have "lang (Cls cl) [x] c c" by simp
  ultimately show ?case by blast
next
  case (Seq r1 r2)
  from Seq.prems have "rmatch r1 s c (\<lambda>s' c'. rmatch r2 s' c' k) = Some res" by simp
  from Seq.IH(1)[OF this] obtain w1 s1 c1 where
    1: "s = w1 @ s1" "lang r1 w1 c c1" "rmatch r2 s1 c1 k = Some res" by blast
  from Seq.IH(2)[OF 1(3)] obtain w2 s2 c2 where
    2: "s1 = w2 @ s2" "lang r2 w2 c1 c2" "k s2 c2 = Some res" by blast
  have "s = (w1 @ w2) @ s2" using 1(1) 2(1) by simp
  moreover have "lang (Seq r1 r2) (w1 @ w2) c c2" using 1(2) 2(2) by auto
  ultimately show ?case using 2(3) by blast
next
  case (Opt r)
  show ?case
  proof (cases "rmatch r s c k")
    case None
    with Opt.prems have "k s c = Some res" by simp
    moreover have "s = [] @ s" by simp
    moreover have "lang (Opt r) [] c c" by simp
    ultimately show ?thesis by blast
  next
    case (Some a)
    with Opt.prems have "rmatch r s c k = Some res" by simp
    from Opt.IH[OF this] show ?thesis by auto
  qed
next
  case (Rep cl lo hi)
  let ?m = "rep_max hi (length (takeWhile (in_cls cl) s))"
  from Rep.prems obtain n where n: "lo \<le> n" "n \<le> ?m" "k (drop n s) c = Some res"
    by (auto dest!: first_some_SomeD)
  have le: "n \<le> length (takeWhile (in_cls cl) s)"
    using n(2) by (auto simp: rep_max_def split: option.splits)
  have le2: "n \<le> length s" using le length_takeWhile_le[of "in_cls cl" s] by linarith
  have "lang (Rep cl lo hi) (take n s) c c"
    using n(1,2) le le2 take_takeWhile_all[OF le]
    by (auto simp: rep_max_def split: option.splits)
  moreover have "s = take n s @ drop n s" by simp
  ultimately show ?case using n(3) by blast
next
  case (Grp i r)
  from Grp.prems have
    "rmatch r s c (\<lambda>s' c'. k s' (c'[i := Some (take (length s - length s') s)])) = Some res"
    by simp
  from Grp.IH[OF this] obtain w s' c1 where
    1: "s = w @ s'" "lang r w c c1" "k s' (c1[i := Some (take (length s - length s') s)]) = Some res"
    by blast
  have "take (length s - length s') s = w" using 1(1) by simp
  with 1 have "lang (Grp i r) w c (c1[i := Some w])" "k s' (c1[i := Some w]) = Some res" by auto
  with 1(1) show ?case by blast
next
  case Eps
  then show ?case by auto
qed

lemma rmatch_complete:
  "lang r w c c' \<Longrightarrow> k s' c' \<noteq> None \<Longrightarrow> rmatch r (w @ s') c k \<noteq> None"
proof (induction r arbitrary: w c c' k s')
  case (Chr a)
  then show ?case by auto
next
  case (Cls cl)
  then show ?case by auto
next
  case (Seq r1 r2)
  from Seq.prems(1) obtain w1 w2 c1 where
    1: "w = w1 @ w2" "lang r1 w1 c c1" "lang r2 w2 c1 c'" by auto
  have "rmatch r2 (w2 @ s') c1 k \<noteq> None"
    using Seq.IH(2)[of w2 c1 c' k s'] 1(3) Seq.prems(2) by blast
  then have "rmatch r1 (w1 @ (w2 @ s')) c (\<lambda>s' c'. rmatch r2 s' c' k) \<noteq> None"
    using Seq.IH(1)[of w1 c c1 "\<lambda>s' c'. rmatch r2 s' c' k" "w2 @ s'"] 1(2) by blast
  then show ?case using 1(1) by simp
next
  case (Opt r)
  show ?case
  proof (cases "rmatch r (w @ s') c k")
    case (Some a)
    then show ?thesis by simp
  next
    case None
    with Opt.IH[of w c c' k s'] Opt.prems have "w = []" "c' = c" by auto
    with Opt.prems None show ?thesis by simp
  qed
next
  case (Rep cl lo hi)
  let ?m = "rep_max hi (length (takeWhile (in_cls cl) (w @ s')))"
  from Rep.prems have w: "list_all (in_cls cl) w" "lo \<le> length w" "c' = c"
    and hi: "case hi of None \<Rightarrow> True | Some h \<Rightarrow> length w \<le> h" by auto
  have "length w \<le> ?m"
    using length_takeWhile_append_ge[OF w(1), of s'] hi
    by (auto simp: rep_max_def split: option.splits)
  with w(2) have mem: "length w \<in> set (rev [lo ..< Suc ?m])" by auto
  have "k (drop (length w) (w @ s')) c \<noteq> None" using Rep.prems(2) w(3) by simp
  with first_some_not_None[OF mem, of "\<lambda>n. k (drop n (w @ s')) c"]
  have "first_some (\<lambda>n. k (drop n (w @ s')) c) (rev [lo ..< Suc ?m]) \<noteq> None" by blast
  then show ?case unfolding rmatch.simps .
next
  case (Grp i r)
  from Grp.prems(1) obtain c1 where 1: "lang r w c c1" "c' = c1[i := Some w]" by auto
  let ?k = "\<lambda>s'' c''. k s'' (c''[i := Some (take (length (w @ s') - length s'') (w @ s'))])"
  have "?k s' c1 \<noteq> None" using Grp.prems(2) 1(2) by simp
  with Grp.IH[of w c c1 ?k s'] 1(1) have "rmatch r (w @ s') c ?k \<noteq> None" by blast
  then show ?case by simp
next
  case Eps
  then show ?case by auto
qed

section \<open>What the three patterns accept\<close>

lemma in_alnum: "in_cls alnum = is_alnum"
  by (rule ext) (auto simp: in_cls_def alnum_def is_alnum_def)

lemma in_alnum_hyphen: "in_cls alnum_hyphen = (\<lambda>c. is_alnum c \<or> c = CHR ''-'')"
  by (rule ext) (auto simp: in_cls_def alnum_hyphen_def is_alnum_def)

lemma in_host_chars: "in_cls host_chars = (\<lambda>c. is_alnum c \<or> c = CHR ''.'' \<or> c = CHR ''-'')"
  by (rule ext) (auto simp: in_cls_def host_chars_def is_alnum_def)

lemma in_repo_chars: "in_cls repo_chars = (\<lambda>c. is_alnum c \<or> c = CHR ''_'' \<or> c = CHR ''.'' \<or> c = CHR ''-'')"
  by (rule ext) (auto simp: in_cls_def repo_chars_def is_alnum_def)

lemma in_any: "in_cls [AnyChar] = (\<lambda>c. c \<noteq> CHR 0x0A \<and> c \<noteq> CHR 0x0D)"
  by (rule ext) (auto simp: in_cls_def)

lemma not_alnum_hyphen: "\<not> is_alnum CHR ''-''"
  by (simp add: is_alnum_def)

lemma not_alnum_slash: "\<not> is_alnum CHR ''/''"
  by (simp add: is_alnum_def)

lemma lang_owner_re: "lang owner_re w c c' \<longleftrightarrow> owner_syntax w \<and> c' = c"
proof
  assume "lang owner_re w c c'"
  then obtain x rest where w: "w = x # rest" "is_alnum x" "c' = c"
    and rest: "rest = [] \<or> (\<exists>mid y. rest = mid @ [y] \<and> list_all (\<lambda>c. is_alnum c \<or> c = CHR ''-'') mid
                 \<and> length mid \<le> 37 \<and> is_alnum y)"
    by (auto simp: owner_re_def in_alnum in_alnum_hyphen)
  from rest show "owner_syntax w \<and> c' = c"
  proof
    assume "rest = []"
    with w show ?thesis using not_alnum_hyphen by (auto simp: owner_syntax_def)
  next
    assume "\<exists>mid y. rest = mid @ [y] \<and> list_all (\<lambda>c. is_alnum c \<or> c = CHR ''-'') mid
                 \<and> length mid \<le> 37 \<and> is_alnum y"
    then obtain mid y where "rest = mid @ [y]" "list_all (\<lambda>c. is_alnum c \<or> c = CHR ''-'') mid"
      "length mid \<le> 37" "is_alnum y" by blast
    with w show ?thesis using not_alnum_hyphen by (auto simp: owner_syntax_def)
  qed
next
  assume a: "owner_syntax w \<and> c' = c"
  then obtain x rest where w: "w = x # rest" by (cases w) (auto simp: owner_syntax_def)
  from a w have x: "is_alnum x" by (auto simp: owner_syntax_def)
  show "lang owner_re w c c'"
  proof (cases rest rule: rev_cases)
    case Nil
    with a w x show ?thesis by (auto simp: owner_re_def in_alnum)
  next
    case (snoc mid y)
    with a w have "is_alnum y" "list_all (\<lambda>c. is_alnum c \<or> c = CHR ''-'') mid" "length mid \<le> 37"
      by (auto simp: owner_syntax_def)
    then have "lang (Rep alnum_hyphen 0 (Some 37)) mid c c" "lang (Cls alnum) [y] c c"
      by (auto simp: in_alnum in_alnum_hyphen)
    then have "lang (Seq (Rep alnum_hyphen 0 (Some 37)) (Cls alnum)) (mid @ [y]) c c"
      unfolding lang.simps(3) by blast
    then have "lang (Opt (Seq (Rep alnum_hyphen 0 (Some 37)) (Cls alnum))) (mid @ [y]) c c"
      by simp
    moreover have "lang (Cls alnum) [x] c c" using x by (simp add: in_alnum)
    ultimately have "lang owner_re ([x] @ (mid @ [y])) c c"
      unfolding owner_re_def lang.simps(3) by blast
    with a w snoc show ?thesis by simp
  qed
qed

lemma js_match_lang:
  "js_match r s = Some m \<Longrightarrow> \<exists>c'. lang r s (replicate 5 None) c' \<and> m = c'[0 := Some s]"
proof -
  assume "js_match r s = Some m"
  then have "rmatch r s (replicate 5 None) (\<lambda>s' c. if s' = [] then Some (c[0 := Some s]) else None) = Some m"
    by (simp add: js_match_def)
  from rmatch_sound[OF this] obtain w s' c' where
    "s = w @ s'" "lang r w (replicate 5 None) c'"
    "(if s' = [] then Some (c'[0 := Some s]) else None) = Some m" by blast
  then show ?thesis by (cases "s' = []") auto
qed

lemma js_match_complete:
  "lang r s (replicate 5 None) c' \<Longrightarrow> js_match r s \<noteq> None"
  using rmatch_complete[of r s "replicate 5 None" c' "\<lambda>s' c. if s' = [] then Some (c[0 := Some s]) else None" "[]"]
  by (simp add: js_match_def)

lemma lang_repo_group:
  "lang (Grp i (Rep repo_chars lo hi)) w c c' \<longleftrightarrow>
     repo_alphabet w \<and> lo \<le> length w \<and> (case hi of None \<Rightarrow> True | Some h \<Rightarrow> length w \<le> h)
     \<and> c' = c[i := Some w]"
  by (auto simp: in_repo_chars repo_alphabet_def)

lemma lang_path_group:
  "lang (Opt (Grp i path_re)) w c c' \<longleftrightarrow>
     (w = [] \<and> c' = c)
     \<or> (\<exists>q. w = CHR ''/'' # q \<and> list_all (\<lambda>x. x \<noteq> CHR 0x0A \<and> x \<noteq> CHR 0x0D) q
           \<and> c' = c[i := Some w])"
  by (auto simp: path_re_def in_any)

lemma lang_cat_ConsE:
  assumes "lang (cat (r # rs)) w c c'"
  obtains w1 w2 c1 where "w = w1 @ w2" "lang r w1 c c1" "lang (cat rs) w2 c1 c'"
  using assms by (auto simp: cat_def)

lemma lang_cat_NilD: "lang (cat []) w c c' \<Longrightarrow> w = [] \<and> c' = c"
  by (simp add: cat_def)

lemma lang_slash: "lang (Chr CHR ''/'') w c c' \<longleftrightarrow> w = ''/'' \<and> c' = c"
  by simp

lemma REPO_PATTERN_D:
  assumes "js_match REPO_PATTERN s = Some m"
  shows "\<exists>ow r. s = ow @ ''/'' @ r \<and> owner_syntax ow \<and> repo_syntax r
           \<and> m = [Some s, Some ow, Some r, None, None]"
proof -
  define c0 :: captures where "c0 = replicate 5 None"
  from js_match_lang[OF assms] obtain c' where
    L: "lang REPO_PATTERN s c0 c'" and m: "m = c'[0 := Some s]"
    unfolding c0_def by blast
  from L[unfolded REPO_PATTERN_def] obtain ow t1 c1 where
    s1: "s = ow @ t1" and 1: "lang (Grp 1 owner_re) ow c0 c1"
    and L1: "lang (cat [Chr CHR ''/'', Grp 2 (Rep repo_chars 1 (Some 100))]) t1 c1 c'"
    by (rule lang_cat_ConsE)
  from L1 obtain sl t2 c2 where
    s2: "t1 = sl @ t2" and 2: "lang (Chr CHR ''/'') sl c1 c2"
    and L2: "lang (cat [Grp 2 (Rep repo_chars 1 (Some 100))]) t2 c2 c'"
    by (rule lang_cat_ConsE)
  from L2 obtain r t3 c3 where
    s3: "t2 = r @ t3" and 3: "lang (Grp 2 (Rep repo_chars 1 (Some 100))) r c2 c3"
    and L3: "lang (cat []) t3 c3 c'"
    by (rule lang_cat_ConsE)
  from lang_cat_NilD[OF L3] have e: "t3 = []" "c' = c3" by simp_all
  from 1 have ow: "owner_syntax ow" "c1 = c0[1 := Some ow]" by (auto simp: lang_owner_re)
  from 2 have sl: "sl = ''/''" "c2 = c1" unfolding lang_slash by simp_all
  from 3 have r: "repo_syntax r" "c3 = c2[2 := Some r]"
    unfolding lang_repo_group by (auto simp: repo_syntax_def)
  have "m = [Some s, Some ow, Some r, None, None]"
    using m e(2) r(2) sl(2) ow(2) by (simp add: c0_def eval_nat_numeral)
  moreover have "s = ow @ ''/'' @ r" using s1 s2 s3 e(1) sl(1) by simp
  ultimately show ?thesis using ow(1) r(1) by blast
qed

lemma REPO_WITH_PATH_PATTERN_D:
  assumes "js_match REPO_WITH_PATH_PATTERN s = Some m"
  shows "\<exists>ow r p. s = ow @ ''/'' @ r @ p \<and> owner_syntax ow \<and> r \<noteq> [] \<and> repo_alphabet r
           \<and> (p = [] \<and> m = [Some s, Some ow, Some r, None, None]
              \<or> (\<exists>q. p = CHR ''/'' # q \<and> m = [Some s, Some ow, Some r, Some p, None]))"
proof -
  define c0 :: captures where "c0 = replicate 5 None"
  from js_match_lang[OF assms] obtain c' where
    L: "lang REPO_WITH_PATH_PATTERN s c0 c'" and m: "m = c'[0 := Some s]"
    unfolding c0_def by blast
  from L[unfolded REPO_WITH_PATH_PATTERN_def] obtain ow t1 c1 where
    s1: "s = ow @ t1" and 1: "lang (Grp 1 owner_re) ow c0 c1"
    and L1: "lang (cat [Chr CHR ''/'', Grp 2 (Rep repo_chars 1 None), Opt (Grp 3 path_re)]) t1 c1 c'"
    by (rule lang_cat_ConsE)
  from L1 obtain sl t2 c2 where
    s2: "t1 = sl @ t2" and 2: "lang (Chr CHR ''/'') sl c1 c2"
    and L2: "lang (cat [Grp 2 (Rep repo_chars 1 None), Opt (Grp 3 path_re)]) t2 c2 c'"
    by (rule lang_cat_ConsE)
  from L2 obtain r t3 c3 where
    s3: "t2 = r @ t3" and 3: "lang (Grp 2 (Rep repo_chars 1 None)) r c2 c3"
    and L3: "lang (cat [Opt (Grp 3 path_re)]) t3 c3 c'"
    by (rule lang_cat_ConsE)
  from L3 obtain p t4 c4 where
    s4: "t3 = p @ t4" and 4: "lang (Opt (Grp 3 path_re)) p c3 c4"
    and L4: "lang (cat []) t4 c4 c'"
    by (rule lang_cat_ConsE)
  from lang_cat_NilD[OF L4] have e: "t4 = []" "c' = c4" by simp_all
  from 1 have ow: "owner_syntax ow" "c1 = c0[1 := Some ow]" by (auto simp: lang_owner_re)
  from 2 have sl: "sl = ''/''" "c2 = c1" unfolding lang_slash by simp_all
  from 3 have r: "repo_alphabet r" "r \<noteq> []" "c3 = c2[2 := Some r]"
    unfolding lang_repo_group by auto
  have c3: "c3 = [None, Some ow, Some r, None, None]"
    using r(3) sl(2) ow(2) by (simp add: c0_def eval_nat_numeral)
  from 4 have "p = [] \<and> c4 = c3 \<or> (\<exists>q. p = CHR ''/'' # q \<and> c4 = c3[3 := Some p])"
    unfolding lang_path_group by auto
  then have "p = [] \<and> m = [Some s, Some ow, Some r, None, None]
              \<or> (\<exists>q. p = CHR ''/'' # q \<and> m = [Some s, Some ow, Some r, Some p, None])"
    using m e(2) c3 by auto
  moreover have "s = ow @ ''/'' @ r @ p" using s1 s2 s3 s4 e(1) sl(1) by simp
  ultimately show ?thesis using ow(1) r(1,2) by blast
qed

lemma lang_scheme_captures:
  "lang (Opt (cat [lit ''http'', Opt (Chr CHR ''s''), lit ''://''])) w c c' \<Longrightarrow> c' = c"
  by (auto simp: cat_def lit_def)

lemma lang_www_captures: "lang (Opt (lit ''www.'')) w c c' \<Longrightarrow> c' = c"
  by (auto simp: cat_def lit_def)

lemma FULL_URL_PATTERN_D:
  assumes "js_match FULL_URL_PATTERN s = Some m"
  shows "\<exists>pre d ow r p. s = pre @ d @ ''/'' @ ow @ ''/'' @ r @ p
           \<and> d \<noteq> [] \<and> list_all (\<lambda>c. is_alnum c \<or> c = CHR ''.'' \<or> c = CHR ''-'') d
           \<and> owner_syntax ow \<and> r \<noteq> [] \<and> repo_alphabet r
           \<and> (p = [] \<and> m = [Some s, Some d, Some ow, Some r, None]
              \<or> (\<exists>q. p = CHR ''/'' # q \<and> m = [Some s, Some d, Some ow, Some r, Some p]))"
proof -
  define c0 :: captures where "c0 = replicate 5 None"
  from js_match_lang[OF assms] obtain c' where
    L: "lang FULL_URL_PATTERN s c0 c'" and m: "m = c'[0 := Some s]"
    unfolding c0_def by blast
  from L[unfolded FULL_URL_PATTERN_def] obtain sch ta ca where
    sa: "s = sch @ ta"
    and a: "lang (Opt (cat [lit ''http'', Opt (Chr CHR ''s''), lit ''://''])) sch c0 ca"
    and La: "lang (cat [Opt (lit ''www.''),
          Grp 1 (Rep host_chars 1 None), Chr CHR ''/'',
          Grp 2 owner_re, Chr CHR ''/'',
          Grp 3 (Rep repo_chars 1 None), Opt (Grp 4 path_re)]) ta ca c'"
    by (rule lang_cat_ConsE)
  from La obtain www tb cb where
    sb: "ta = www @ tb" and b: "lang (Opt (lit ''www.'')) www ca cb"
    and Lb: "lang (cat [Grp 1 (Rep host_chars 1 None), Chr CHR ''/'',
          Grp 2 owner_re, Chr CHR ''/'',
          Grp 3 (Rep repo_chars 1 None), Opt (Grp 4 path_re)]) tb cb c'"
    by (rule lang_cat_ConsE)
  from Lb obtain d t1 c1 where
    s1: "tb = d @ t1" and 1: "lang (Grp 1 (Rep host_chars 1 None)) d cb c1"
    and L1: "lang (cat [Chr CHR ''/'', Grp 2 owner_re, Chr CHR ''/'',
          Grp 3 (Rep repo_chars 1 None), Opt (Grp 4 path_re)]) t1 c1 c'"
    by (rule lang_cat_ConsE)
  from L1 obtain sl1 t2 c2 where
    s2: "t1 = sl1 @ t2" and 2: "lang (Chr CHR ''/'') sl1 c1 c2"
    and L2: "lang (cat [Grp 2 owner_re, Chr CHR ''/'',
          Grp 3 (Rep repo_chars 1 None), Opt (Grp 4 path_re)]) t2 c2 c'"
    by (rule lang_cat_ConsE)
  from L2 obtain ow t3 c3 where
    s3: "t2 = ow @ t3" and 3: "lang (Grp 2 owner_re) ow c2 c3"
    and L3: "lang (cat [Chr CHR ''/'', Grp 3 (Rep repo_chars 1 None), Opt (Grp 4 path_re)]) t3 c3 c'"
    by (rule lang_cat_ConsE)
  from L3 obtain sl2 t4 c4 where
    s4: "t3 = sl2 @ t4" and 4: "lang (Chr CHR ''/'') sl2 c3 c4"
    and L4: "lang (cat [Grp 3 (Rep repo_chars 1 None), Opt (Grp 4 path_re)]) t4 c4 c'"
    by (rule lang_cat_ConsE)
  from L4 obtain r t5 c5 where
    s5: "t4 = r @ t5" and 5: "lang (Grp 3 (Rep repo_chars 1 None)) r c4 c5"
    and L5: "lang (cat [Opt (Grp 4 path_re)]) t5 c5 c'"
    by (rule lang_cat_ConsE)
  from L5 obtain p t6 c6 where
    s6: "t5 = p @ t6" and 6: "lang (Opt (Grp 4 path_re)) p c5 c6"
    and L6: "lang (cat []) t6 c6 c'"
    by (rule lang_cat_ConsE)
  from lang_cat_NilD[OF L6] have e: "t6 = []" "c' = c6" by simp_all
  have cb: "cb = c0" using lang_scheme_captures[OF a] lang_www_captures[OF b] by simp
  from 1 have d: "d \<noteq> []" "list_all (\<lambda>c. is_alnum c \<or> c = CHR ''.'' \<or> c = CHR ''-'') d"
    "c1 = cb[1 := Some d]"
    by (auto simp: in_host_chars)
  from 2 have sl1: "sl1 = ''/''" "c2 = c1" unfolding lang_slash by simp_all
  from 3 have ow: "owner_syntax ow" "c3 = c2[2 := Some ow]" by (auto simp: lang_owner_re)
  from 4 have sl2: "sl2 = ''/''" "c4 = c3" unfolding lang_slash by simp_all
  from 5 have r: "repo_alphabet r" "r \<noteq> []" "c5 = c4[3 := Some r]"
    unfolding lang_repo_group by auto
  have c5: "c5 = [None, Some d, Some ow, Some r, None]"
    using r(3) sl2(2) ow(2) sl1(2) d(3) cb by (simp add: c0_def eval_nat_numeral)
  from 6 have "p = [] \<and> c6 = c5 \<or> (\<exists>q. p = CHR ''/'' # q \<and> c6 = c5[4 := Some p])"
    unfolding lang_path_group by auto
  then have "p = [] \<and> m = [Some s, Some d, Some ow, Some r, None]
              \<or> (\<exists>q. p = CHR ''/'' # q \<and> m = [Some s, Some d, Some ow, Some r, Some p])"
    using m e(2) c5 by auto
  moreover have "s = (sch @ www) @ d @ ''/'' @ ow @ ''/'' @ r @ p"
    using sa sb s1 s2 s3 s4 s5 s6 e(1) sl1(1) sl2(1) by simp
  ultimately show ?thesis using d(1,2) ow(1) r(1,2) by blast
qed

section \<open>What the parsers return\<close>

lemma split_first_slash:
  "a @ CHR ''/'' # b = a' @ CHR ''/'' # b' \<Longrightarrow> CHR ''/'' \<notin> set a \<Longrightarrow> CHR ''/'' \<notin> set a'
   \<Longrightarrow> a = a' \<and> b = b'"
proof (induction a arbitrary: a')
  case Nil
  then show ?case by (cases a') auto
next
  case (Cons x xs)
  then show ?case by (cases a') auto
qed

lemma owner_no_slash: "owner_syntax ow \<Longrightarrow> CHR ''/'' \<notin> set ow"
  by (auto simp: owner_syntax_def list_all_iff is_alnum_def)

lemma repo_no_slash: "repo_alphabet r \<Longrightarrow> CHR ''/'' \<notin> set r"
  by (auto simp: repo_alphabet_def list_all_iff is_alnum_def)

lemma trim_Nil: "trim [] = []"
  by (simp add: trim_def)

lemma set_trim: "set (trim s) \<subseteq> set s"
proof -
  have "set (trim s) = set (dropWhile isWhiteSpace (rev (dropWhile isWhiteSpace s)))"
    by (simp add: trim_def)
  also have "\<dots> \<subseteq> set (rev (dropWhile isWhiteSpace s))"
    by (auto dest: set_dropWhileD)
  also have "\<dots> \<subseteq> set s" by (auto dest: set_dropWhileD)
  finally show ?thesis .
qed

lemma REPO_PATTERN_slash: "js_match REPO_PATTERN s = Some m \<Longrightarrow> CHR ''/'' \<in> set s"
  by (auto dest!: REPO_PATTERN_D)

lemma REPO_WITH_PATH_PATTERN_slash: "js_match REPO_WITH_PATH_PATTERN s = Some m \<Longrightarrow> CHR ''/'' \<in> set s"
  by (auto dest!: REPO_WITH_PATH_PATTERN_D)

lemma FULL_URL_PATTERN_slash: "js_match FULL_URL_PATTERN s = Some m \<Longrightarrow> CHR ''/'' \<in> set s"
  by (auto dest!: FULL_URL_PATTERN_D)

lemma parseRepoInput_needs_slash:
  assumes "CHR ''/'' \<notin> set input"
  shows "parseRepoInput dp input = None"
proof -
  from assms set_trim[of input] have n: "CHR ''/'' \<notin> set (trim input)" by blast
  have "js_match FULL_URL_PATTERN (trim input) = None"
    using FULL_URL_PATTERN_slash n by (cases "js_match FULL_URL_PATTERN (trim input)") auto
  moreover have "js_match REPO_WITH_PATH_PATTERN (trim input) = None"
    using REPO_WITH_PATH_PATTERN_slash n by (cases "js_match REPO_WITH_PATH_PATTERN (trim input)") auto
  moreover have "js_match REPO_PATTERN (trim input) = None"
    using REPO_PATTERN_slash n by (cases "js_match REPO_PATTERN (trim input)") auto
  ultimately show ?thesis by (simp add: parseRepoInput_def Let_def)
qed

lemma split_ws_chars: "t \<in> set (split_ws s) \<Longrightarrow> set t \<subseteq> set s"
proof (induction s arbitrary: t rule: split_ws.induct)
  case 1
  then show ?case by simp
next
  case (2 c cs)
  show ?case
  proof (cases "isWhiteSpace c")
    case True
    with 2 show ?thesis by (auto dest: set_dropWhileD)
  next
    case False
    with 2 show ?thesis by (auto split: list.splits) blast+
  qed
qed

lemma join_chars: "set (join sep ps) \<subseteq> set sep \<union> (\<Union>t \<in> set ps. set t)"
  by (induction sep ps rule: join.induct) auto

lemma parseSearchQuery_needs_slash:
  assumes "CHR ''/'' \<notin> set query"
  shows "parseSearchQuery dp query = None"
proof -
  from assms set_trim[of query] have n: "CHR ''/'' \<notin> set (trim query)" by blast
  have parts: "\<And>t. t \<in> set (split_ws (trim query)) \<Longrightarrow> CHR ''/'' \<notin> set t"
    using split_ws_chars n by blast
  have j: "CHR ''/'' \<notin> set (join '' '' ps)" if "set ps \<subseteq> set (split_ws (trim query))" for ps
    using join_chars[of "'' ''" ps] parts that by auto
  have 1: "CHR ''/'' \<notin> set (join '' '' (drop 1 (split_ws (trim query))))"
    by (rule j) (auto dest: in_set_dropD)
  have 2: "CHR ''/'' \<notin> set (join '' '' (take (length (split_ws (trim query)) - 1) (split_ws (trim query))))"
    by (rule j) (auto dest: in_set_takeD)
  show ?thesis
    using n 1 2 parseRepoInput_needs_slash
    by (auto simp: parseSearchQuery_def Let_def split: option.splits prod.splits if_splits)
qed

lemma parseRepoInput_cases:
  assumes "parseRepoInput dp input = Some t"
  obtains (url) m p where "js_match FULL_URL_PATTERN (trim input) = Some m"
      "findPlatformByDomain (capture m 1) = Some p"
      "t = \<lparr>platform = p, owner = capture m 2, repo = capture m 3, path = capture m 4\<rparr>"
  | (with_path) m where "js_match REPO_WITH_PATH_PATTERN (trim input) = Some m"
      "t = \<lparr>platform = defaultPlatform dp, owner = capture m 1, repo = capture m 2,
            path = capture m 3\<rparr>"
  | (bare) m where "js_match REPO_PATTERN (trim input) = Some m"
      "t = \<lparr>platform = defaultPlatform dp, owner = capture m 1, repo = capture m 2, path = []\<rparr>"
  using assms by (auto simp: parseRepoInput_def Let_def split: if_splits option.splits)

lemma parseRepoInput_shape:
  assumes "parseRepoInput dp input = Some t"
  shows "owner_syntax (owner t) \<and> repo t \<noteq> [] \<and> repo_alphabet (repo t) \<and> path_syntax (path t)"
  using assms
proof (cases rule: parseRepoInput_cases)
  case (url m p)
  from FULL_URL_PATTERN_D[OF url(1)] url(3) show ?thesis
    by (auto simp: capture_def path_syntax_def)
next
  case (with_path m)
  from REPO_WITH_PATH_PATTERN_D[OF with_path(1)] with_path(2) show ?thesis
    by (auto simp: capture_def path_syntax_def)
next
  case (bare m)
  from REPO_PATTERN_D[OF bare(1)] bare(2) show ?thesis
    by (auto simp: capture_def path_syntax_def repo_syntax_def)
qed

lemma parseSearchQuery_result:
  assumes "parseSearchQuery dp query = Some t"
  shows "\<exists>q t'. parseRepoInput dp q = Some t'
           \<and> owner t = owner t' \<and> repo t = repo t' \<and> path t = path t'"
proof -
  from assms obtain q t' d where "parseRepoInput dp q = Some t'" "t = t'\<lparr>platform := d\<rparr>"
    by (auto simp: parseSearchQuery_def Let_def split: if_splits option.splits prod.splits)
  then have "parseRepoInput dp q = Some t' \<and> owner t = owner t' \<and> repo t = repo t' \<and> path t = path t'"
    by simp
  then show ?thesis by blast
qed

lemma parseSearchQuery_shape:
  assumes "parseSearchQuery dp query = Some t"
  shows "owner_syntax (owner t) \<and> repo t \<noteq> [] \<and> repo_alphabet (repo t) \<and> path_syntax (path t)"
proof -
  from parseSearchQuery_result[OF assms] obtain q t' where
    "parseRepoInput dp q = Some t'" "owner t = owner t'" "repo t = repo t'" "path t = path t'"
    by blast
  with parseRepoInput_shape[of dp q t'] show ?thesis by simp
qed

lemma lang_SeqI: "lang r1 w1 c c1 \<Longrightarrow> lang r2 w2 c1 c' \<Longrightarrow> lang (Seq r1 r2) (w1 @ w2) c c'"
  by auto

lemma REPO_WITH_PATH_PATTERN_I:
  assumes "owner_syntax ow" "r \<noteq> []" "repo_alphabet r"
  shows "js_match REPO_WITH_PATH_PATTERN (ow @ ''/'' @ r) = Some [Some (ow @ ''/'' @ r), Some ow, Some r, None, None]"
proof -
  let ?s = "ow @ ''/'' @ r"
  define c0 :: captures where "c0 = replicate 5 None"
  have 1: "lang (Grp 1 owner_re) ow c0 (c0[1 := Some ow])"
    using assms(1) by (simp add: lang_owner_re)
  have 2: "lang (Chr CHR ''/'') ''/'' (c0[1 := Some ow]) (c0[1 := Some ow])" by simp
  have 3: "lang (Grp 2 (Rep repo_chars 1 None)) r (c0[1 := Some ow]) (c0[1 := Some ow, 2 := Some r])"
    using assms(2,3) by (cases r) (auto simp: in_repo_chars repo_alphabet_def)
  have 4: "lang (Opt (Grp 3 path_re)) [] (c0[1 := Some ow, 2 := Some r]) (c0[1 := Some ow, 2 := Some r])"
    by simp
  have 5: "lang Eps [] (c0[1 := Some ow, 2 := Some r]) (c0[1 := Some ow, 2 := Some r])" by simp
  have "lang REPO_WITH_PATH_PATTERN (ow @ ''/'' @ r @ [] @ []) c0 (c0[1 := Some ow, 2 := Some r])"
    using lang_SeqI[OF 1 lang_SeqI[OF 2 lang_SeqI[OF 3 lang_SeqI[OF 4 5]]]]
    by (simp add: REPO_WITH_PATH_PATTERN_def cat_def)
  then have "lang REPO_WITH_PATH_PATTERN ?s (replicate 5 None) (c0[1 := Some ow, 2 := Some r])"
    by (simp add: c0_def)
  from js_match_complete[OF this] obtain m where m: "js_match REPO_WITH_PATH_PATTERN ?s = Some m"
    by blast
  from REPO_WITH_PATH_PATTERN_D[OF m] obtain ow2 r2 p2 where
    s2: "?s = ow2 @ ''/'' @ r2 @ p2" and o2: "owner_syntax ow2" and r2: "repo_alphabet r2"
    and c: "p2 = [] \<and> m = [Some ?s, Some ow2, Some r2, None, None]
              \<or> (\<exists>q. p2 = CHR ''/'' # q \<and> m = [Some ?s, Some ow2, Some r2, Some p2, None])"
    by blast
  from s2 have "ow @ CHR ''/'' # r = ow2 @ CHR ''/'' # (r2 @ p2)" by simp
  from split_first_slash[OF this owner_no_slash[OF assms(1)] owner_no_slash[OF o2]]
  have e: "ow = ow2" "r = r2 @ p2" by simp_all
  have "p2 = []"
  proof (rule ccontr)
    assume "p2 \<noteq> []"
    with c obtain q where "p2 = CHR ''/'' # q" by blast
    with e(2) have "CHR ''/'' \<in> set r" by simp
    with repo_no_slash[OF assms(3)] show False by simp
  qed
  with c e m show ?thesis by simp
qed

lemma count_slash_append:
  "length (filter (\<lambda>c. c = CHR ''/'') (a @ b)) = length (filter (\<lambda>c. c = CHR ''/'') a) + length (filter (\<lambda>c. c = CHR ''/'') b)"
  by simp

lemma no_slash_count: "CHR ''/'' \<notin> set a \<Longrightarrow> filter (\<lambda>c. c = CHR ''/'') a = []"
  by (induction a) auto

lemma REPO_PATTERN_not_FULL_URL:
  assumes "js_match REPO_PATTERN s = Some m"
  shows "js_match FULL_URL_PATTERN s = None"
proof (rule ccontr)
  assume "js_match FULL_URL_PATTERN s \<noteq> None"
  then obtain m' where "js_match FULL_URL_PATTERN s = Some m'" by blast
  from FULL_URL_PATTERN_D[OF this] obtain pre d ow r p where
    "s = pre @ d @ ''/'' @ ow @ ''/'' @ r @ p" by blast
  then have "length (filter (\<lambda>c. c = CHR ''/'') s) \<ge> 2" by simp
  moreover from REPO_PATTERN_D[OF assms] obtain ow' r' where
    "s = ow' @ ''/'' @ r'" "owner_syntax ow'" "repo_syntax r'" by blast
  then have "length (filter (\<lambda>c. c = CHR ''/'') s) = 1"
    using owner_no_slash[of ow'] repo_no_slash[of r']
    by (simp add: no_slash_count repo_syntax_def)
  ultimately show False by simp
qed

lemma parseRepoInput_bare:
  assumes "js_match REPO_PATTERN (trim input) = Some m"
  shows "parseRepoInput dp input =
     Some \<lparr>platform = defaultPlatform dp, owner = capture m 1, repo = capture m 2, path = []\<rparr>"
proof -
  let ?s = "trim input"
  from REPO_PATTERN_D[OF assms] obtain ow r where
    s: "?s = ow @ ''/'' @ r" and ow: "owner_syntax ow" and r: "repo_syntax r"
    and m: "m = [Some ?s, Some ow, Some r, None, None]" by blast
  have ne: "?s \<noteq> []" "input \<noteq> []" using s trim_Nil by auto
  have F: "js_match FULL_URL_PATTERN ?s = None" by (rule REPO_PATTERN_not_FULL_URL[OF assms])
  have "r \<noteq> []" "repo_alphabet r" using r by (auto simp: repo_syntax_def)
  from REPO_WITH_PATH_PATTERN_I[OF ow this] s
  have W: "js_match REPO_WITH_PATH_PATTERN ?s = Some [Some ?s, Some ow, Some r, None, None]"
    by simp
  show ?thesis using ne F W m by (simp add: parseRepoInput_def Let_def capture_def)
qed

lemma FULL_URL_PATTERN_two_slashes:
  assumes "js_match FULL_URL_PATTERN s = Some m"
  shows "2 \<le> length (filter (\<lambda>c. c = CHR ''/'') s)"
proof -
  from FULL_URL_PATTERN_D[OF assms] obtain pre d ow r p where
    "s = pre @ d @ ''/'' @ ow @ ''/'' @ r @ p" by blast
  then show ?thesis by simp
qed

lemma trim_id: "s \<noteq> [] \<Longrightarrow> \<not> isWhiteSpace (hd s) \<Longrightarrow> \<not> isWhiteSpace (last s) \<Longrightarrow> trim s = s"
proof -
  assume a: "s \<noteq> []" "\<not> isWhiteSpace (hd s)" "\<not> isWhiteSpace (last s)"
  then have "dropWhile isWhiteSpace s = s" by (cases s) auto
  moreover have "dropWhile isWhiteSpace (rev s) = rev s"
    using a by (cases "rev s") (auto simp: last_rev[symmetric] hd_rev simp del: last_rev)
  ultimately show ?thesis by (simp add: trim_def)
qed

lemma parseRepoInput_owner_repo:
  assumes "owner_syntax ow" "r \<noteq> []" "repo_alphabet r" "trim input = ow @ ''/'' @ r"
  shows "parseRepoInput dp input =
     Some \<lparr>platform = defaultPlatform dp, owner = ow, repo = r, path = []\<rparr>"
proof -
  let ?s = "trim input"
  have ne: "?s \<noteq> []" "input \<noteq> []" using assms(4) trim_Nil by auto
  have "length (filter (\<lambda>c. c = CHR ''/'') ?s) = 1"
    using owner_no_slash[OF assms(1)] repo_no_slash[OF assms(3)] assms(4)
    by (simp add: no_slash_count)
  then have F: "js_match FULL_URL_PATTERN ?s = None"
    using FULL_URL_PATTERN_two_slashes[of ?s] by (cases "js_match FULL_URL_PATTERN ?s") auto
  from REPO_WITH_PATH_PATTERN_I[OF assms(1-3)] assms(4)
  have W: "js_match REPO_WITH_PATH_PATTERN ?s = Some [Some ?s, Some ow, Some r, None, None]"
    by simp
  show ?thesis using ne F W by (simp add: parseRepoInput_def Let_def capture_def)
qed

section \<open>The platform table: domain lookup and URL templates\<close>

lemma registry_round_trip_all:
  "list_all (\<lambda>(k, c). findPlatformByDomain (domain c) = Some k \<and>
     (case buildRepoUrl k ''o'' ''r'' '''' of
        Inr (Some u) \<Rightarrow> includes_str u ''o'' \<and> (k \<noteq> ''npm'' \<longrightarrow> includes_str u ''r'')
           \<and> (\<not> singleName c \<longrightarrow> includes_str u ''/o/r'')
      | _ \<Rightarrow> False)) PLATFORMS"
  by code_simp

text \<open>
  C4, as the specification states it: for every registered platform, looking its own
  domain up returns that platform, and the URL built for owner \<open>o\<close>, repo \<open>r\<close> and an
  empty path contains \<open>o\<close> and \<open>r\<close>. The second half fails for \<open>npm\<close>: its template
  \<open>https://www.npmjs.com/package/{owner}{path}\<close> has no placeholder for the repo, and
  the URL built, \<open>https://www.npmjs.com/package/o\<close>, has no letter \<open>r\<close> in it.
\<close>

theorem npm_url_lacks_repo_counterexample:
  "map_of PLATFORMS ''npm'' \<noteq> None
   \<and> buildRepoUrl ''npm'' ''o'' ''r'' '''' = Inr (Some ''https://www.npmjs.com/package/o'')
   \<and> \<not> includes_str ''https://www.npmjs.com/package/o'' ''r''"
  by code_simp

text \<open>
  C4, amended: for every registered platform, looking its own domain up returns that
  platform; the URL built for owner \<open>o\<close>, repo \<open>r\<close> and an empty path exists and
  contains \<open>o\<close>; it contains \<open>r\<close> for every platform but \<open>npm\<close>; and for every
  platform that is not \<open>singleName\<close> (the ones whose template has a \<open>{repo}\<close>
  placeholder) it contains \<open>/o/r\<close>.
\<close>

theorem domain_round_trip:
  assumes "(k, c) \<in> set PLATFORMS"
  shows "findPlatformByDomain (domain c) = Some k
     \<and> (\<exists>u. buildRepoUrl k ''o'' ''r'' '''' = Inr (Some u)
          \<and> (\<exists>a b. u = a @ ''o'' @ b)
          \<and> (k \<noteq> ''npm'' \<longrightarrow> (\<exists>a b. u = a @ ''r'' @ b))
          \<and> (\<not> singleName c \<longrightarrow> (\<exists>a b. u = a @ ''/o/r'' @ b)))"
proof -
  from registry_round_trip_all assms
  have "findPlatformByDomain (domain c) = Some k \<and>
     (case buildRepoUrl k ''o'' ''r'' '''' of
        Inr (Some u) \<Rightarrow> includes_str u ''o'' \<and> (k \<noteq> ''npm'' \<longrightarrow> includes_str u ''r'')
           \<and> (\<not> singleName c \<longrightarrow> includes_str u ''/o/r'')
      | _ \<Rightarrow> False)"
    unfolding list_all_iff by blast
  then show ?thesis
    by (auto simp: includes_str_iff split: sum.splits option.splits)
qed

theorem domain_round_trip_witness:
  "findPlatformByDomain ''hub.docker.com'' = Some ''docker''
   \<and> (\<exists>u. buildRepoUrl ''docker'' ''o'' ''r'' '''' = Inr (Some u) \<and> (\<exists>a b. u = a @ ''/o/r'' @ b))"
proof -
  let ?c = "\<lparr>name = ''Docker Hub'', keywords_list = [''docker'', ''dockerhub''],
        urlPattern = ''https://hub.docker.com/r/{owner}/{repo}{path}'',
        domain = ''hub.docker.com'', singleName = False, allowAt = False\<rparr>"
  have "(''docker'', ?c) \<in> set PLATFORMS" by (simp add: PLATFORMS_def)
  from domain_round_trip[OF this] show ?thesis by auto
qed

lemma domain_loop_first:
  fixes d :: string
  defines "hit \<equiv> \<lambda>c. includes_str d (domain c) \<or> includes_str (domain c) d"
  assumes "\<exists>(k, c) \<in> set ps. hit c"
  shows "\<exists>pre k c post. ps = pre @ (k, c) # post \<and> domain_loop d ps = Some k
           \<and> hit c \<and> (\<forall>(k', c') \<in> set pre. \<not> hit c')"
  using assms(2)
proof (induction ps)
  case Nil
  then show ?case by simp
next
  case (Cons x ps)
  obtain k c where x: "x = (k, c)" by (cases x)
  have step: "domain_loop d (x # ps) = (if hit c then Some k else domain_loop d ps)"
    unfolding x hit_def by simp
  show ?case
  proof (cases "hit c")
    case True
    have "x # ps = [] @ (k, c) # ps" using x by simp
    moreover have "domain_loop d (x # ps) = Some k" using step True by simp
    moreover have "\<forall>(k', c') \<in> set []. \<not> hit c'" by simp
    ultimately show ?thesis using True by blast
  next
    case False
    with Cons.prems x have "\<exists>(k, c) \<in> set ps. hit c" by auto
    from Cons.IH[OF this] obtain pre k2 c2 post where
      IH: "ps = pre @ (k2, c2) # post" "domain_loop d ps = Some k2" "hit c2"
        "\<forall>(k', c') \<in> set pre. \<not> hit c'"
      by blast
    have "x # ps = (x # pre) @ (k2, c2) # post" using IH(1) by simp
    moreover have "domain_loop d (x # ps) = Some k2" using step False IH(2) by simp
    moreover have "\<forall>(k', c') \<in> set (x # pre). \<not> hit c'" using IH(4) False x by simp
    ultimately show ?thesis using IH(3) by blast
  qed
qed

lemma domains_lower_case: "(k, c) \<in> set PLATFORMS \<Longrightarrow> toLowerCase (domain c) = domain c"
proof -
  have "list_all (\<lambda>(k, c). toLowerCase (domain c) = domain c) PLATFORMS" by code_simp
  then show "(k, c) \<in> set PLATFORMS \<Longrightarrow> toLowerCase (domain c) = domain c"
    unfolding list_all_iff by blast
qed

text \<open>
  C10: the domain lookup matches by mutual substring, not by exact host. For every
  non-empty \<open>s\<close> that, compared without regard to case, contains the domain of some
  registered platform or is contained in it, \<open>findPlatformByDomain s\<close> returns a
  platform key, namely that of the first entry of the table, in its order, whose domain
  contains or is contained in the lower-cased \<open>s\<close>. So the one-letter host \<open>o\<close> and
  the host \<open>github.com.evil.example\<close> both give \<open>github\<close>.
\<close>

theorem findPlatformByDomain_mutual_substring:
  "(s \<noteq> [] \<and> (key, config) \<in> set PLATFORMS
     \<and> ((\<exists>a b. toLowerCase s = a @ toLowerCase (domain config) @ b)
        \<or> (\<exists>a b. toLowerCase (domain config) = a @ toLowerCase s @ b)) \<longrightarrow>
     (\<exists>pre k c post. PLATFORMS = pre @ (k, c) # post \<and> findPlatformByDomain s = Some k
        \<and> ((\<exists>a b. toLowerCase s = a @ domain c @ b) \<or> (\<exists>a b. domain c = a @ toLowerCase s @ b))
        \<and> (\<forall>(k', c') \<in> set pre. \<not> ((\<exists>a b. toLowerCase s = a @ domain c' @ b)
                                     \<or> (\<exists>a b. domain c' = a @ toLowerCase s @ b)))))
   \<and> findPlatformByDomain ''o'' = Some ''github''
   \<and> findPlatformByDomain ''github.com.evil.example'' = Some ''github''"
proof (intro conjI impI)
  show "findPlatformByDomain ''o'' = Some ''github''" by code_simp
  show "findPlatformByDomain ''github.com.evil.example'' = Some ''github''" by code_simp
  assume a: "s \<noteq> [] \<and> (key, config) \<in> set PLATFORMS
     \<and> ((\<exists>a b. toLowerCase s = a @ toLowerCase (domain config) @ b)
        \<or> (\<exists>a b. toLowerCase (domain config) = a @ toLowerCase s @ b))"
  then have mem: "(key, config) \<in> set PLATFORMS" by simp
  from a have "(\<exists>a b. toLowerCase s = a @ toLowerCase (domain config) @ b)
        \<or> (\<exists>a b. toLowerCase (domain config) = a @ toLowerCase s @ b)" by simp
  then have "includes_str (toLowerCase s) (domain config) \<or> includes_str (domain config) (toLowerCase s)"
    by (simp only: includes_str_iff domains_lower_case[OF mem])
  with mem have "\<exists>(k, c) \<in> set PLATFORMS.
        includes_str (toLowerCase s) (domain c) \<or> includes_str (domain c) (toLowerCase s)"
    by blast
  from domain_loop_first[OF this]
  have "\<exists>pre k c post. PLATFORMS = pre @ (k, c) # post \<and> domain_loop (toLowerCase s) PLATFORMS = Some k
        \<and> (includes_str (toLowerCase s) (domain c) \<or> includes_str (domain c) (toLowerCase s))
        \<and> (\<forall>(k', c') \<in> set pre. \<not> (includes_str (toLowerCase s) (domain c')
                                       \<or> includes_str (domain c') (toLowerCase s)))" .
  then show "\<exists>pre k c post. PLATFORMS = pre @ (k, c) # post \<and> findPlatformByDomain s = Some k
        \<and> ((\<exists>a b. toLowerCase s = a @ domain c @ b) \<or> (\<exists>a b. domain c = a @ toLowerCase s @ b))
        \<and> (\<forall>(k', c') \<in> set pre. \<not> ((\<exists>a b. toLowerCase s = a @ domain c' @ b)
                                     \<or> (\<exists>a b. domain c' = a @ toLowerCase s @ b)))"
    by (simp only: findPlatformByDomain_def includes_str_iff)
qed

theorem findPlatformByDomain_mutual_substring_witness:
  "''Hub'' \<noteq> [] \<and> (\<exists>a b. toLowerCase ''hub.docker.com'' = a @ toLowerCase ''Hub'' @ b)
   \<and> findPlatformByDomain ''Hub'' = Some ''github''"
proof -
  let ?c = "\<lparr>name = ''Docker Hub'', keywords_list = [''docker'', ''dockerhub''],
        urlPattern = ''https://hub.docker.com/r/{owner}/{repo}{path}'',
        domain = ''hub.docker.com'', singleName = False, allowAt = False\<rparr>"
  have mem: "(''docker'', ?c) \<in> set PLATFORMS" by (simp add: PLATFORMS_def)
  have "toLowerCase ''hub.docker.com'' = [] @ toLowerCase ''Hub'' @ ''.docker.com''" by code_simp
  then have sub: "\<exists>a b. toLowerCase ''hub.docker.com'' = a @ toLowerCase ''Hub'' @ b" by blast
  then have sub': "\<exists>a b. toLowerCase (domain ?c) = a @ toLowerCase ''Hub'' @ b" by simp
  have ne: "''Hub'' \<noteq> []" by simp
  from findPlatformByDomain_mutual_substring[of "''Hub''" "''docker''" ?c] ne mem sub'
  obtain k where "findPlatformByDomain ''Hub'' = Some k" by blast
  moreover have "findPlatformByDomain ''Hub'' = Some ''github''" by code_simp
  ultimately show ?thesis using sub ne by blast
qed

lemma prototype_keys_not_own: "key \<in> set Object_prototype \<Longrightarrow> map_of PLATFORMS key = None"
proof -
  have "list_all (\<lambda>k. map_of PLATFORMS k = None) Object_prototype" by code_simp
  then show "key \<in> set Object_prototype \<Longrightarrow> map_of PLATFORMS key = None"
    by (simp add: list_all_iff)
qed

text \<open>
  C8 says that \<open>buildRepoUrl\<close> never raises and returns \<open>null\<close> exactly when the
  platform key is not in the registry. The key \<open>constructor\<close> is not in the registry,
  yet \<open>PLATFORMS['constructor']\<close> is the inherited constructor function, which passes
  the test \<open>!config\<close>; its \<open>urlPattern\<close> is \<open>undefined\<close>, and \<open>buildRepoUrl\<close> raises a
  \<open>TypeError\<close>. In general the result is \<open>null\<close> exactly for the keys that are neither
  in the registry nor inherited, and an exception exactly for the inherited ones. The
  rest of the claim holds: a registered key always gives a URL, with empty segments
  where fields are empty, and the two parsers have no raising path at all (their
  results are \<open>Some\<close> target or \<open>None\<close>).
\<close>

theorem buildRepoUrl_inherited_key:
  "buildRepoUrl ''constructor'' ''o'' ''r'' '''' = Inl TypeError
   \<and> map_of PLATFORMS ''constructor'' = None
   \<and> (buildRepoUrl p ow r pa = Inr None \<longleftrightarrow>
        map_of PLATFORMS p = None \<and> p \<notin> set Object_prototype)
   \<and> (buildRepoUrl p ow r pa = Inl TypeError \<longleftrightarrow> p \<in> set Object_prototype)
   \<and> (map_of PLATFORMS p \<noteq> None \<longrightarrow> (\<exists>u. buildRepoUrl p ow r pa = Inr (Some u)))
   \<and> buildRepoUrl ''github'' '''' '''' '''' = Inr (Some ''https://github.com//'')"
proof -
  have 1: "buildRepoUrl ''constructor'' ''o'' ''r'' '''' = Inl TypeError" by code_simp
  have 2: "map_of PLATFORMS ''constructor'' = None" by code_simp
  have 3: "buildRepoUrl ''github'' '''' '''' '''' = Inr (Some ''https://github.com//'')"
    by code_simp
  have 4: "buildRepoUrl p ow r pa = Inr None \<longleftrightarrow>
        map_of PLATFORMS p = None \<and> p \<notin> set Object_prototype"
    by (auto simp: buildRepoUrl_def PLATFORMS_get_def split: option.splits)
  have 5: "buildRepoUrl p ow r pa = Inl TypeError \<longleftrightarrow> p \<in> set Object_prototype"
    using prototype_keys_not_own[of p]
    by (auto simp: buildRepoUrl_def PLATFORMS_get_def split: option.splits)
  have 6: "map_of PLATFORMS p \<noteq> None \<longrightarrow> (\<exists>u. buildRepoUrl p ow r pa = Inr (Some u))"
    by (auto simp: buildRepoUrl_def PLATFORMS_get_def split: option.splits)
  show ?thesis using 1 2 3 4 5 6 by blast
qed

theorem buildRepoUrl_inherited_key_witness:
  "map_of PLATFORMS ''npm'' \<noteq> None
   \<and> buildRepoUrl ''npm'' '''' '''' '''' = Inr (Some ''https://www.npmjs.com/package/'')"
proof -
  have a: "map_of PLATFORMS ''npm'' \<noteq> None" by code_simp
  with buildRepoUrl_inherited_key[of "''npm''" "''''" "''''" "''''"]
  obtain u where "buildRepoUrl ''npm'' '''' '''' '''' = Inr (Some u)" by blast
  moreover have "buildRepoUrl ''npm'' '''' '''' '''' = Inr (Some ''https://www.npmjs.com/package/'')"
    by code_simp
  ultimately show ?thesis using a by simp
qed

text \<open>
  Such a key can reach \<open>buildRepoUrl\<close>: \<open>background.js\<close> accepts a stored default
  platform on the same test, \<open>if (PLATFORMS[value])\<close>, and the parsers hand the default
  platform on unchecked. With \<open>constructor\<close> as the default platform, a failed
  navigation to \<open>http://xyz/b\<close> is resolved and recorded in the ledger, and then the
  exception, caught and logged by the listener, leaves the tab where it is.
\<close>

lemma onErrorOccurred_inherited_default:
  "parseRepoInput (Some ''constructor'') ''xyz/b'' =
      Some \<lparr>platform = ''constructor'', owner = ''xyz'', repo = ''b'', path = ''''\<rparr>
   \<and> openRepoUnified \<lparr>platform = ''constructor'', owner = ''xyz'', repo = ''b'', path = ''''\<rparr>
        = Inl TypeError
   \<and> onErrorOccurred True [] (Some ''constructor'') 1000 1001
        \<lparr>frameId = 0, error = ''net::ERR_NAME_NOT_RESOLVED'', url = ''http://xyz/b'',
         hostname = ''xyz'', pathname = ''/b''\<rparr> Map.empty
      = (None, [''constructor:xyz/b'' \<mapsto> 1001])"
proof -
  have 1: "parseRepoInput (Some ''constructor'') ''xyz/b'' =
      Some \<lparr>platform = ''constructor'', owner = ''xyz'', repo = ''b'', path = ''''\<rparr>"
    by code_simp
  have 2: "openRepoUnified \<lparr>platform = ''constructor'', owner = ''xyz'', repo = ''b'', path = ''''\<rparr>
        = Inl TypeError"
    by code_simp
  have 3: "findPlatformByDomain ''xyz'' = None" by code_simp
  have 4: "\<not> shouldBypass ''http://xyz/b'' (getBypassPatterns [])" by code_simp
  have 5: "strip_slashes (''xyz'' @ ''/b'') = ''xyz/b''" by code_simp
  show ?thesis
    using 1 2 3 4 5
    by (simp add: onErrorOccurred_def isRecentJump_def recordJump_def jumpKey_def Let_def)
qed

text \<open>
  No keyword is listed twice in the table, by one platform or by two: a token names at
  most one platform.
\<close>

lemma keywords_distinct:
  "distinct (concat (map (\<lambda>(key, config). keywords_list config) PLATFORMS))"
  by code_simp

text \<open>
  The replacement text of \<open>replace\<close> is a template: an owner \<open>$&\<close> is not copied into
  the URL, it stands for the placeholder it replaces. The address-bar listener passes
  such an owner on for a \<open>singleName\<close> platform.
\<close>

lemma buildRepoUrl_dollar_pattern:
  "buildRepoUrl ''github'' ''$&'' ''r'' '''' = Inr (Some ''https://github.com/{owner}/r'')
   \<and> onInputEntered True d ''npm $&'' = Inr (Some ''https://www.npmjs.com/package/{owner}'')"
  by code_simp

section \<open>The parsers\<close>

text \<open>
  C6: with the default platform \<open>github\<close>, \<open>parseRepoInput\<close> turns
  \<open>microsoft/vscode\<close> into platform \<open>github\<close>, owner \<open>microsoft\<close>, repo \<open>vscode\<close> and
  an empty path, from which \<open>buildRepoUrl\<close> builds
  \<open>https://github.com/microsoft/vscode\<close>. In general, an input that (trimmed) matches
  the bare owner/repo pattern is bound to the configured default platform, with the
  owner and the repo that the pattern captures.
\<close>

theorem bare_owner_repo_default_platform:
  "parseRepoInput (Some ''github'') ''microsoft/vscode'' =
      Some \<lparr>platform = ''github'', owner = ''microsoft'', repo = ''vscode'', path = ''''\<rparr>
   \<and> buildRepoUrl ''github'' ''microsoft'' ''vscode'' '''' =
      Inr (Some ''https://github.com/microsoft/vscode'')
   \<and> (js_match REPO_PATTERN (trim input) = Some m \<longrightarrow>
        parseRepoInput (Some p) input =
          Some \<lparr>platform = p, owner = capture m 1, repo = capture m 2, path = ''''\<rparr>)"
proof -
  have 1: "parseRepoInput (Some ''github'') ''microsoft/vscode'' =
      Some \<lparr>platform = ''github'', owner = ''microsoft'', repo = ''vscode'', path = ''''\<rparr>"
    by code_simp
  have 2: "buildRepoUrl ''github'' ''microsoft'' ''vscode'' '''' =
      Inr (Some ''https://github.com/microsoft/vscode'')"
    by code_simp
  have 3: "parseRepoInput (Some p) input =
          Some \<lparr>platform = p, owner = capture m 1, repo = capture m 2, path = ''''\<rparr>"
    if "js_match REPO_PATTERN (trim input) = Some m"
    using parseRepoInput_bare[OF that, of "Some p"] by (simp add: defaultPlatform_def)
  show ?thesis using 1 2 3 by blast
qed

theorem bare_owner_repo_default_platform_witness:
  "js_match REPO_PATTERN (trim '' facebook/react '') =
      Some [Some ''facebook/react'', Some ''facebook'', Some ''react'', None, None]
   \<and> parseRepoInput (Some ''gitlab'') '' facebook/react '' =
      Some \<lparr>platform = ''gitlab'', owner = ''facebook'', repo = ''react'', path = ''''\<rparr>"
proof -
  have a: "js_match REPO_PATTERN (trim '' facebook/react '') =
      Some [Some ''facebook/react'', Some ''facebook'', Some ''react'', None, None]"
    by code_simp
  from bare_owner_repo_default_platform[of "'' facebook/react ''" _ "''gitlab''"] a
  have "parseRepoInput (Some ''gitlab'') '' facebook/react '' =
      Some \<lparr>platform = ''gitlab'',
            owner = capture [Some ''facebook/react'', Some ''facebook'', Some ''react'', None, None] 1,
            repo = capture [Some ''facebook/react'', Some ''facebook'', Some ''react'', None, None] 2,
            path = ''''\<rparr>"
    by blast
  then show ?thesis using a by (simp add: capture_def)
qed

text \<open>
  C7: \<open>parseRepoInput\<close> turns \<open>https://gitlab.com/owner/repo/issues/5\<close> into platform
  \<open>gitlab\<close>, owner \<open>owner\<close>, repo \<open>repo\<close> and path \<open>/issues/5\<close>, whatever the default
  platform. The full-URL pattern is tried first: whenever it matches the trimmed input
  with a domain that the registry knows, the result is taken from that match, also when
  an owner/repo pattern matches the same input.
\<close>

theorem full_url_first:
  "parseRepoInput dp ''https://gitlab.com/owner/repo/issues/5'' =
      Some \<lparr>platform = ''gitlab'', owner = ''owner'', repo = ''repo'', path = ''/issues/5''\<rparr>
   \<and> (js_match FULL_URL_PATTERN (trim input) = Some m
        \<and> findPlatformByDomain (capture m 1) = Some p \<longrightarrow>
        parseRepoInput dp input =
          Some \<lparr>platform = p, owner = capture m 2, repo = capture m 3, path = capture m 4\<rparr>)"
proof -
  have 1: "parseRepoInput dp ''https://gitlab.com/owner/repo/issues/5'' =
      Some \<lparr>platform = ''gitlab'', owner = ''owner'', repo = ''repo'', path = ''/issues/5''\<rparr>"
    by code_simp
  have 2: "parseRepoInput dp input =
          Some \<lparr>platform = p, owner = capture m 2, repo = capture m 3, path = capture m 4\<rparr>"
    if m: "js_match FULL_URL_PATTERN (trim input) = Some m"
      and p: "findPlatformByDomain (capture m 1) = Some p"
  proof -
    from FULL_URL_PATTERN_slash[OF m] have "trim input \<noteq> []" by auto
    moreover from this have "input \<noteq> []" using trim_Nil by auto
    ultimately show ?thesis using m p by (simp add: parseRepoInput_def Let_def)
  qed
  show ?thesis using 1 2 by blast
qed

text \<open>
  The witness is an input that both grammars accept: \<open>gitlab/owner/repo\<close> is a URL
  without scheme on the host \<open>gitlab\<close>, and also owner \<open>gitlab\<close>, repo \<open>owner\<close>, path
  \<open>/repo\<close>. The result is the URL's.
\<close>

theorem full_url_first_witness:
  "js_match FULL_URL_PATTERN (trim ''gitlab/owner/repo'') =
      Some [Some ''gitlab/owner/repo'', Some ''gitlab'', Some ''owner'', Some ''repo'', None]
   \<and> js_match REPO_WITH_PATH_PATTERN (trim ''gitlab/owner/repo'') =
      Some [Some ''gitlab/owner/repo'', Some ''gitlab'', Some ''owner'', Some ''/repo'', None]
   \<and> findPlatformByDomain ''gitlab'' = Some ''gitlab''
   \<and> parseRepoInput (Some ''github'') ''gitlab/owner/repo'' =
      Some \<lparr>platform = ''gitlab'', owner = ''owner'', repo = ''repo'', path = ''''\<rparr>"
proof -
  let ?m = "[Some ''gitlab/owner/repo'', Some ''gitlab'', Some ''owner'', Some ''repo'', None]"
  have a: "js_match FULL_URL_PATTERN (trim ''gitlab/owner/repo'') = Some ?m"
    by code_simp
  have b: "js_match REPO_WITH_PATH_PATTERN (trim ''gitlab/owner/repo'') =
      Some [Some ''gitlab/owner/repo'', Some ''gitlab'', Some ''owner'', Some ''/repo'', None]"
    by code_simp
  have c: "findPlatformByDomain ''gitlab'' = Some ''gitlab''" by code_simp
  have d: "capture ?m 1 = ''gitlab''" "capture ?m 2 = ''owner''" "capture ?m 3 = ''repo''"
    "capture ?m 4 = ''''"
    by (simp_all add: capture_def)
  from full_url_first[of "Some ''github''" "''gitlab/owner/repo''" ?m "''gitlab''"] a c d
  have "parseRepoInput (Some ''github'') ''gitlab/owner/repo'' =
      Some \<lparr>platform = ''gitlab'', owner = ''owner'', repo = ''repo'', path = ''''\<rparr>"
    by simp
  then show ?thesis using a b c by blast
qed

text \<open>
  C1 says that \<open>parseSearchQuery\<close> resolves the queries \<open>npm react\<close> and \<open>react npm\<close>
  to platform \<open>npm\<close> with owner \<open>react\<close> and an empty repo. On the code the keyword
  \<open>npm\<close> is recognised, but the rest of the query, \<open>react\<close>, goes to \<open>parseRepoInput\<close>,
  whose three patterns all need a slash: both queries give \<open>null\<close>. The second half of
  the claim is right about \<open>buildRepoUrl\<close>: for that target it builds
  \<open>https://www.npmjs.com/package/react\<close>.
\<close>

theorem parseSearchQuery_bare_package_name:
  "findPlatformByKeyword ''npm'' = Some ''npm''
   \<and> parseSearchQuery dp ''npm react'' = None
   \<and> parseSearchQuery dp ''react npm'' = None
   \<and> buildRepoUrl ''npm'' ''react'' '''' '''' = Inr (Some ''https://www.npmjs.com/package/react'')"
  by code_simp

text \<open>
  The address-bar listener does resolve the same two inputs: for a \<open>singleName\<close>
  platform it takes the whole rest of the input as the owner, with an empty repo, and
  opens the package page, whatever the default platform.
\<close>

lemma onInputEntered_bare_package_name:
  "onInputEntered True d ''npm react'' = Inr (Some ''https://www.npmjs.com/package/react'')
   \<and> onInputEntered True d ''react npm'' = Inr (Some ''https://www.npmjs.com/package/react'')"
  by code_simp

text \<open>
  The platform of a search result never comes from the query's own URL: it is the
  platform of a keyword at either end of the query, or else the default platform. So
  the query \<open>https://gitlab.com/owner/repo\<close>, under the default platform \<open>github\<close>,
  resolves to \<open>github\<close>.
\<close>

lemma parseSearchQuery_platform_source:
  "parseSearchQuery (Some ''github'') ''https://gitlab.com/owner/repo'' =
      Some \<lparr>platform = ''github'', owner = ''owner'', repo = ''repo'', path = ''''\<rparr>
   \<and> (parseSearchQuery dp q = Some t \<longrightarrow>
        platform t = defaultPlatform dp \<or> (\<exists>kw. findPlatformByKeyword kw = Some (platform t)))"
proof -
  have 1: "parseSearchQuery (Some ''github'') ''https://gitlab.com/owner/repo'' =
      Some \<lparr>platform = ''github'', owner = ''owner'', repo = ''repo'', path = ''''\<rparr>"
    by code_simp
  have 2: "platform t = defaultPlatform dp \<or> (\<exists>kw. findPlatformByKeyword kw = Some (platform t))"
    if "parseSearchQuery dp q = Some t"
    using that
    by (auto simp: parseSearchQuery_def Let_def split: if_splits option.splits prod.splits)
  show ?thesis using 1 2 by blast
qed

lemma parseSearchQuery_platform_source_witness:
  "parseSearchQuery None ''gl a/b'' =
      Some \<lparr>platform = ''gitlab'', owner = ''a'', repo = ''b'', path = ''''\<rparr>
   \<and> defaultPlatform None \<noteq> ''gitlab''
   \<and> (\<exists>kw. findPlatformByKeyword kw = Some ''gitlab'')"
proof -
  let ?t = "\<lparr>platform = ''gitlab'', owner = ''a'', repo = ''b'', path = ''''\<rparr>"
  have a: "parseSearchQuery None ''gl a/b'' = Some ?t" by code_simp
  have b: "defaultPlatform None \<noteq> ''gitlab''" by (simp add: defaultPlatform_def)
  from parseSearchQuery_platform_source[of None "''gl a/b''" ?t] a
  have "platform ?t = defaultPlatform None \<or> (\<exists>kw. findPlatformByKeyword kw = Some (platform ?t))"
    by blast
  with b have "\<exists>kw. findPlatformByKeyword kw = Some ''gitlab''" by simp
  with a b show ?thesis by blast
qed

text \<open>
  C2 says that a target resolved for a \<open>singleName\<close> platform never has a repo, and
  that an identifier without a slash resolves to nothing on the other platforms. The
  parsers never read the flag \<open>singleName\<close>: the query \<open>npm facebook/react\<close> resolves
  to platform \<open>npm\<close> with repo \<open>react\<close>, and every target that either parser returns,
  for whatever platform, has a repo that is not empty. The second half holds, and for
  every platform: an input without a slash resolves to nothing.
\<close>

theorem singleName_repo_populated:
  "parseSearchQuery dp ''npm facebook/react'' =
      Some \<lparr>platform = ''npm'', owner = ''facebook'', repo = ''react'', path = ''''\<rparr>
   \<and> map_option singleName (map_of PLATFORMS ''npm'') = Some True
   \<and> (parseRepoInput dp input = Some t \<longrightarrow> repo t \<noteq> [])
   \<and> (parseSearchQuery dp input = Some t \<longrightarrow> repo t \<noteq> [])
   \<and> (CHR ''/'' \<notin> set input \<longrightarrow>
        parseRepoInput dp input = None \<and> parseSearchQuery dp input = None)"
proof -
  have 1: "parseSearchQuery dp ''npm facebook/react'' =
      Some \<lparr>platform = ''npm'', owner = ''facebook'', repo = ''react'', path = ''''\<rparr>"
    by code_simp
  have 2: "map_option singleName (map_of PLATFORMS ''npm'') = Some True"
    by code_simp
  show ?thesis
    using 1 2 parseRepoInput_shape[of dp input t] parseSearchQuery_shape[of dp input t]
      parseRepoInput_needs_slash[of input dp] parseSearchQuery_needs_slash[of input dp]
    by blast
qed

theorem singleName_repo_populated_witness:
  "CHR ''/'' \<notin> set ''react'' \<and> parseRepoInput None ''react'' = None
   \<and> CHR ''/'' \<notin> set ''gh react'' \<and> parseSearchQuery None ''gh react'' = None
   \<and> parseRepoInput None ''npmjs.com/package/react'' =
        Some \<lparr>platform = ''npm'', owner = ''package'', repo = ''react'', path = ''''\<rparr>
   \<and> repo \<lparr>platform = ''npm'', owner = ''package'', repo = ''react'', path = ''''\<rparr> \<noteq> []"
proof -
  have a: "CHR ''/'' \<notin> set ''react''" "CHR ''/'' \<notin> set ''gh react''" by simp_all
  have b: "parseRepoInput None ''npmjs.com/package/react'' =
     Some \<lparr>platform = ''npm'', owner = ''package'', repo = ''react'', path = ''''\<rparr>"
    by code_simp
  from singleName_repo_populated[of None "''react''"] a(1)
  have c: "parseRepoInput None ''react'' = None" by blast
  from singleName_repo_populated[of None "''gh react''"] a(2)
  have d: "parseSearchQuery None ''gh react'' = None" by blast
  from singleName_repo_populated[of None "''npmjs.com/package/react''"
      "\<lparr>platform = ''npm'', owner = ''package'', repo = ''react'', path = ''''\<rparr>"] b
  have e: "repo \<lparr>platform = ''npm'', owner = ''package'', repo = ''react'', path = ''''\<rparr> \<noteq> []"
    by blast
  show ?thesis using a b c d e by blast
qed

text \<open>
  C3 says that in every target the parsers return, the owner is 1 to 39 alphanumerics
  or hyphens without a hyphen at either end, the repo is 1 to 100 characters out of
  alphanumerics, \<open>.\<close>, \<open>-\<close> and \<open>_\<close>, and the path is empty or begins with a slash.
  All of it holds but the upper bound on the repo: \<open>REPO_WITH_PATH_PATTERN\<close>, which is
  tried before \<open>REPO_PATTERN\<close> and accepts whatever that one accepts, reads the repo
  with \<open>+\<close>, so the input \<open>a/\<close> followed by 101 letters \<open>b\<close> resolves to a repo of
  101 characters.
\<close>

theorem repo_length_unbounded:
  "parseRepoInput dp (''a/'' @ replicate 101 CHR ''b'') =
      Some \<lparr>platform = defaultPlatform dp, owner = ''a'', repo = replicate 101 CHR ''b'', path = ''''\<rparr>
   \<and> \<not> repo_syntax (replicate 101 CHR ''b'')
   \<and> (parseRepoInput dp input = Some t \<longrightarrow>
        owner_syntax (owner t) \<and> repo t \<noteq> [] \<and> repo_alphabet (repo t) \<and> path_syntax (path t))
   \<and> (parseSearchQuery dp input = Some t \<longrightarrow>
        owner_syntax (owner t) \<and> repo t \<noteq> [] \<and> repo_alphabet (repo t) \<and> path_syntax (path t))"
proof -
  have o: "owner_syntax ''a''" by (simp add: owner_syntax_def is_alnum_def)
  have r: "replicate 101 CHR ''b'' \<noteq> []" "repo_alphabet (replicate 101 CHR ''b'')"
    by (simp_all add: repo_alphabet_def is_alnum_def list_all_iff)
  have "trim (''a/'' @ replicate 101 CHR ''b'') = ''a/'' @ replicate 101 CHR ''b''"
    by (rule trim_id) (simp_all add: isWhiteSpace_def)
  then have "trim (''a/'' @ replicate 101 CHR ''b'') = ''a'' @ ''/'' @ replicate 101 CHR ''b''"
    by simp
  from parseRepoInput_owner_repo[OF o r this]
  have 1: "parseRepoInput dp (''a/'' @ replicate 101 CHR ''b'') =
      Some \<lparr>platform = defaultPlatform dp, owner = ''a'', repo = replicate 101 CHR ''b'', path = ''''\<rparr>" .
  have 2: "\<not> repo_syntax (replicate 101 CHR ''b'')" by (simp add: repo_syntax_def)
  show ?thesis
    using 1 2 parseRepoInput_shape[of dp input t] parseSearchQuery_shape[of dp input t]
    by blast
qed

theorem repo_length_unbounded_witness:
  "parseRepoInput None ''foo/bar/baz'' =
      Some \<lparr>platform = ''github'', owner = ''foo'', repo = ''bar'', path = ''/baz''\<rparr>
   \<and> owner_syntax ''foo'' \<and> repo_alphabet ''bar'' \<and> path_syntax ''/baz''
   \<and> parseSearchQuery None ''foo/bar gl'' =
      Some \<lparr>platform = ''gitlab'', owner = ''foo'', repo = ''bar'', path = ''''\<rparr>
   \<and> path_syntax ''''"
proof -
  have a: "parseRepoInput None ''foo/bar/baz'' =
      Some \<lparr>platform = ''github'', owner = ''foo'', repo = ''bar'', path = ''/baz''\<rparr>"
    by code_simp
  have b: "parseSearchQuery None ''foo/bar gl'' =
      Some \<lparr>platform = ''gitlab'', owner = ''foo'', repo = ''bar'', path = ''''\<rparr>"
    by code_simp
  from repo_length_unbounded[of None "''foo/bar/baz''"
      "\<lparr>platform = ''github'', owner = ''foo'', repo = ''bar'', path = ''/baz''\<rparr>"] a
  have c: "owner_syntax ''foo'' \<and> repo_alphabet ''bar'' \<and> path_syntax ''/baz''" by simp
  from repo_length_unbounded[of None "''foo/bar gl''"
      "\<lparr>platform = ''gitlab'', owner = ''foo'', repo = ''bar'', path = ''''\<rparr>"] b
  have d: "path_syntax ''''" by simp
  show ?thesis using a b c d by blast
qed

section \<open>The bypass list\<close>

lemma bypass_loop_iff:
  "bypass_loop u ps \<longleftrightarrow> (\<exists>p \<in> set ps. includes_str u (toLowerCase p))"
  by (induction ps) auto

text \<open>
  C9 says that \<open>shouldBypass url patterns\<close> is true exactly when some pattern of the
  list is a case-insensitive substring of the URL, and that with \<open>localhost\<close> in the
  list a navigated URL containing \<open>localhost\<close> is bypassed, so that no redirect
  occurs. The function is as the claim says: it is true exactly when some pattern,
  lower-cased, is a substring of the lower-cased URL, whatever the case of either; a
  URL that contains \<open>localhost\<close> is bypassed whenever \<open>localhost\<close> is in the list, as it
  always is in the list that \<open>getBypassPatterns\<close> returns; and the listener for failed
  name resolution, which consults the list, sends the tab nowhere and leaves the
  ledger alone for such a URL. But the listener for navigations to a search engine
  never consults the list. The navigation to
  \<open>https://www.bing.com/search?q=localhost/owner/repo\<close> contains \<open>localhost\<close> and is
  bypassed by \<open>shouldBypass\<close> under every stored list, yet the search text resolves
  to the repository \<open>localhost/owner\<close> of the default platform: the jump is recorded
  and \<open>https://github.com/localhost/owner/repo\<close> is opened, or, in mode \<open>tabJump\<close>,
  the target is stored for the tab.
\<close>

theorem search_redirect_ignores_bypass:
  "(shouldBypass u pats \<longleftrightarrow>
      (\<exists>p \<in> set pats. \<exists>a b. toLowerCase u = a @ toLowerCase p @ b))
   \<and> (''localhost'' \<in> set pats \<and> (\<exists>a b. u = a @ ''localhost'' @ b) \<longrightarrow> shouldBypass u pats)
   \<and> shouldBypass ''localhost/owner/repo'' (getBypassPatterns custom)
   \<and> shouldBypass ''http://LocalHost:8080/Owner/Repo'' [''example.org'', ''LOCALhost'']
   \<and> \<not> shouldBypass ''http://example.com/owner/repo'' [''example.org'', ''LOCALhost'']
   \<and> ((\<exists>a b. url d = a @ ''localhost'' @ b) \<longrightarrow>
        onErrorOccurred feat custom dp now now' d m = (None, m))
   \<and> ''https://www.bing.com/search?q=localhost/owner/repo''
        = ''https://www.bing.com/search?q='' @ ''localhost'' @ ''/owner/repo''
   \<and> shouldBypass ''https://www.bing.com/search?q=localhost/owner/repo''
        (getBypassPatterns custom)
   \<and> onBeforeNavigate True ''autoJump'' (Some ''github'') t t'
        \<lparr>navigation_details.frameId = 0,
         url = ''https://www.bing.com/search?q=localhost/owner/repo'',
         hostname = ''www.bing.com'',
         searchParams = [(''q'', ''localhost/owner/repo'')]\<rparr> Map.empty
      = (OpenUrl ''https://github.com/localhost/owner/repo'', [''github:localhost/owner'' \<mapsto> t'])
   \<and> onBeforeNavigate True ''tabJump'' (Some ''github'') t t'
        \<lparr>navigation_details.frameId = 0,
         url = ''https://www.bing.com/search?q=localhost/owner/repo'',
         hostname = ''www.bing.com'',
         searchParams = [(''q'', ''localhost/owner/repo'')]\<rparr> Map.empty
      = (StoreJump \<lparr>platform = ''github'', owner = ''localhost'', repo = ''owner'',
                     path = ''/repo''\<rparr>, Map.empty)"
proof -
  let ?s = "\<lparr>navigation_details.frameId = 0,
         url = ''https://www.bing.com/search?q=localhost/owner/repo'',
         hostname = ''www.bing.com'',
         searchParams = [(''q'', ''localhost/owner/repo'')]\<rparr>"
  let ?t = "\<lparr>platform = ''github'', owner = ''localhost'', repo = ''owner'', path = ''/repo''\<rparr>"
  have iff: "\<And>u pats. shouldBypass u pats \<longleftrightarrow>
      (\<exists>p \<in> set pats. \<exists>a b. toLowerCase u = a @ toLowerCase p @ b)"
    by (simp add: shouldBypass_def bypass_loop_iff includes_str_iff)
  have loc: "shouldBypass u pats"
    if "''localhost'' \<in> set pats" "\<exists>a b. u = a @ ''localhost'' @ b" for u pats
  proof -
    from that(2) obtain a b where "u = a @ ''localhost'' @ b" by blast
    then have "toLowerCase u = toLowerCase a @ toLowerCase ''localhost'' @ toLowerCase b"
      by (simp only: toLowerCase_append)
    with that(1) show ?thesis unfolding iff by blast
  qed
  have mem: "''localhost'' \<in> set (getBypassPatterns custom)"
    by (simp add: getBypassPatterns_def DEFAULT_BYPASS_PATTERNS_def)
  have ex: "shouldBypass ''localhost/owner/repo'' (getBypassPatterns custom)"
  proof (rule loc[OF mem])
    have "''localhost/owner/repo'' = [] @ ''localhost'' @ ''/owner/repo''" by simp
    then show "\<exists>a b. ''localhost/owner/repo'' = a @ ''localhost'' @ b" by blast
  qed
  have mixed: "shouldBypass ''http://LocalHost:8080/Owner/Repo'' [''example.org'', ''LOCALhost'']"
    by code_simp
  have other: "\<not> shouldBypass ''http://example.com/owner/repo'' [''example.org'', ''LOCALhost'']"
    by code_simp
  have h: "onErrorOccurred feat custom dp now now' d m = (None, m)"
    if "\<exists>a b. url d = a @ ''localhost'' @ b"
    using loc[OF mem that] by (simp add: onErrorOccurred_def)
  have sub: "''https://www.bing.com/search?q=localhost/owner/repo''
        = ''https://www.bing.com/search?q='' @ ''localhost'' @ ''/owner/repo''"
    by simp
  have byp: "shouldBypass ''https://www.bing.com/search?q=localhost/owner/repo''
        (getBypassPatterns custom)"
  proof (rule loc[OF mem])
    from sub show "\<exists>a b. ''https://www.bing.com/search?q=localhost/owner/repo''
        = a @ ''localhost'' @ b" by blast
  qed
  have 1: "isPossibleSearchEngine ?s" by code_simp
  have 2: "extractSearchQuery ?s = Some ''localhost/owner/repo''" by code_simp
  have 3: "parseSearchQuery (Some ''github'') ''localhost/owner/repo'' = Some ?t" by code_simp
  have 4: "openRepoUnified ?t = Inr (Some ''https://github.com/localhost/owner/repo'')"
    by code_simp
  have 5: "jumpKey ''github'' ''localhost'' ''owner'' = ''github:localhost/owner''"
    by (simp add: jumpKey_def)
  have auto_jump: "onBeforeNavigate True ''autoJump'' (Some ''github'') t t' ?s Map.empty
      = (OpenUrl ''https://github.com/localhost/owner/repo'', [''github:localhost/owner'' \<mapsto> t'])"
    unfolding onBeforeNavigate_def using 1
    by (simp add: 2 3 4 5 isRecentJump_def recordJump_def Let_def)
  have tab_jump: "onBeforeNavigate True ''tabJump'' (Some ''github'') t t' ?s Map.empty
      = (StoreJump ?t, Map.empty)"
    unfolding onBeforeNavigate_def using 1
    by (simp add: 2 3 5 isRecentJump_def Let_def)
  show ?thesis using iff loc ex mixed other h sub byp auto_jump tab_jump by blast
qed

text \<open>
  The witness is a failed navigation to \<open>http://localhost/owner/repo\<close>, whose host
  and path the parser would resolve to a repository of the default platform.
\<close>

theorem search_redirect_ignores_bypass_witness:
  "(\<exists>a b. ''http://localhost/owner/repo'' = a @ ''localhost'' @ b)
   \<and> shouldBypass ''http://localhost/owner/repo'' [''localhost'']
   \<and> parseRepoInput None ''localhost/owner/repo'' =
        Some \<lparr>platform = ''github'', owner = ''localhost'', repo = ''owner'', path = ''/repo''\<rparr>
   \<and> onErrorOccurred True [] None 1000 1001
        \<lparr>frameId = 0, error = ''net::ERR_NAME_NOT_RESOLVED'',
         url = ''http://localhost/owner/repo'', hostname = ''localhost'',
         pathname = ''/owner/repo''\<rparr> Map.empty = (None, Map.empty)"
proof -
  let ?d = "\<lparr>frameId = 0, error = ''net::ERR_NAME_NOT_RESOLVED'',
         url = ''http://localhost/owner/repo'', hostname = ''localhost'',
         pathname = ''/owner/repo''\<rparr>"
  have "''http://localhost/owner/repo'' = ''http://'' @ ''localhost'' @ ''/owner/repo''" by simp
  then have sub: "\<exists>a b. ''http://localhost/owner/repo'' = a @ ''localhost'' @ b" by blast
  then have sub': "\<exists>a b. url ?d = a @ ''localhost'' @ b" by simp
  have mem: "''localhost'' \<in> set [''localhost'']" by simp
  from search_redirect_ignores_bypass[of "''http://localhost/owner/repo''" "[''localhost'']"]
    mem sub
  have 1: "shouldBypass ''http://localhost/owner/repo'' [''localhost'']" by blast
  from search_redirect_ignores_bypass[of _ _ "[]" ?d True None 1000 1001 Map.empty] sub'
  have 2: "onErrorOccurred True [] None 1000 1001 ?d Map.empty = (None, Map.empty)" by blast
  have 3: "parseRepoInput None ''localhost/owner/repo'' =
        Some \<lparr>platform = ''github'', owner = ''localhost'', repo = ''owner'', path = ''/repo''\<rparr>"
    by code_simp
  show ?thesis using sub 1 2 3 by blast
qed

text \<open>
  What the search listener does leave alone is a navigation whose host name contains
  \<open>localhost\<close>, by the list \<open>excludePatterns\<close> of \<open>isPossibleSearchEngine\<close>; the rest
  of the URL is not looked at.
\<close>

lemma onBeforeNavigate_local_host:
  "includes_str (navigation_details.hostname s) ''localhost''
   \<Longrightarrow> onBeforeNavigate f mode dp t t' s m = (NoEffect, m)"
  by (simp add: onBeforeNavigate_def isPossibleSearchEngine_def excludePatterns_def)

text \<open>
  The address-bar listener does not consult the list either. The text
  \<open>localhost/owner/repo\<close> reads as a full URL of a host that the registry does not
  know, all three fields stay empty, and the listener opens the default platform's
  template filled with nothing.
\<close>

lemma onInputEntered_localhost:
  "onInputEntered True ''github'' ''localhost/owner/repo'' = Inr (Some ''https://github.com//'')"
  by code_simp

section \<open>The jump ledger\<close>

lemma isRecentJump_other_key:
  "jumpKey p ow r \<noteq> key \<Longrightarrow> snd (isRecentJump p ow r now m) key = m key"
  by (simp add: isRecentJump_def Let_def split: option.splits)

lemma ledger_step_young:
  assumes "m key = Some T" "T \<noteq> 0" "\<not> records_key key e" "event_time e < T + 5000"
  shows "ledger_step e m key = Some T"
proof (cases e)
  case (Check p ow r now)
  show ?thesis
  proof (cases "jumpKey p ow r = key")
    case True
    with assms Check show ?thesis by (simp add: isRecentJump_def Let_def)
  next
    case False
    with assms Check show ?thesis by (simp add: isRecentJump_other_key)
  qed
next
  case (Record p ow r now)
  with assms show ?thesis by (simp add: recordJump_def)
next
  case (Purge k now)
  with assms show ?thesis by (auto simp: purgeJump_def split: option.splits)
qed

lemma ledger_step_absent:
  assumes "m key = None" "\<not> records_key key e"
  shows "ledger_step e m key = None"
proof (cases e)
  case (Check p ow r now)
  with assms show ?thesis by (simp add: isRecentJump_def Let_def split: option.splits)
next
  case (Record p ow r now)
  with assms show ?thesis by (simp add: recordJump_def)
next
  case (Purge k now)
  with assms show ?thesis by (simp add: purgeJump_def split: option.splits)
qed

lemma ledger_step_same_or_absent:
  assumes "m key = Some T" "\<not> records_key key e"
  shows "ledger_step e m key = Some T \<or> ledger_step e m key = None"
proof (cases e)
  case (Check p ow r now)
  with assms show ?thesis by (simp add: isRecentJump_def Let_def split: option.splits)
next
  case (Record p ow r now)
  with assms show ?thesis by (simp add: recordJump_def)
next
  case (Purge k now)
  with assms show ?thesis by (simp add: purgeJump_def split: option.splits)
qed

lemma ledger_run_absent:
  "m key = None \<Longrightarrow> \<forall>e \<in> set evs. \<not> records_key key e \<Longrightarrow> ledger_run evs m key = None"
  by (induction evs arbitrary: m) (auto simp: ledger_step_absent)

lemma ledger_run_young:
  "m key = Some T \<Longrightarrow> T \<noteq> 0 \<Longrightarrow> \<forall>e \<in> set evs. \<not> records_key key e
   \<Longrightarrow> \<forall>e \<in> set evs. event_time e < T + 5000 \<Longrightarrow> ledger_run evs m key = Some T"
  by (induction evs arbitrary: m) (auto simp: ledger_step_young)

lemma ledger_run_same_or_absent:
  "m key = Some T \<Longrightarrow> \<forall>e \<in> set evs. \<not> records_key key e
   \<Longrightarrow> ledger_run evs m key = Some T \<or> ledger_run evs m key = None"
proof (induction evs arbitrary: m)
  case Nil
  then show ?case by simp
next
  case (Cons e evs)
  from Cons.prems have e: "\<not> records_key key e" and rest: "\<forall>e \<in> set evs. \<not> records_key key e"
    by simp_all
  from ledger_step_same_or_absent[of m key T e] Cons.prems(1) e
  have "ledger_step e m key = Some T \<or> ledger_step e m key = None" by auto
  then show ?case
  proof
    assume "ledger_step e m key = Some T"
    with Cons.IH[of "ledger_step e m"] rest show ?thesis by simp
  next
    assume "ledger_step e m key = None"
    with ledger_run_absent[of "ledger_step e m" key evs] rest show ?thesis by simp
  qed
qed

text \<open>
  C5: let \<open>recordJump p ow r\<close> run at clock reading \<open>T\<close>, and let any checks, timer
  callbacks and records of other keys follow (\<open>evs\<close>). Then \<open>isRecentJump p ow r\<close>
  answers true at every later reading \<open>t\<close> with \<open>T < t < T + 5000\<close>, leaving the ledger
  as it is, and false at every reading \<open>t \<ge> T + 5000\<close>, leaving the ledger without the
  entry; and in any ledger, a check that finds an entry of 5000 ms or older deletes it.
  The clock readings are those of \<open>Date.now()\<close>, milliseconds since 1970, so \<open>T\<close> is
  not 0; for the first part the events between are not later than the check.
\<close>

theorem guard_suppression:
  assumes "T \<noteq> 0"
    and "\<forall>e \<in> set evs. \<not> records_key (jumpKey p ow r) e"
    and "m' = ledger_run evs (recordJump p ow r T m)"
  shows "(T < t \<and> t < T + 5000 \<and> (\<forall>e \<in> set evs. event_time e \<le> t) \<longrightarrow>
            isRecentJump p ow r t m' = (True, m'))
       \<and> (T + 5000 \<le> t \<longrightarrow>
            isRecentJump p ow r t m' = (False, m'(jumpKey p ow r := None)))
       \<and> (m0 (jumpKey p ow r) = Some T0 \<and> T0 \<noteq> 0 \<and> T0 + 5000 \<le> t \<longrightarrow>
            isRecentJump p ow r t m0 = (False, m0(jumpKey p ow r := None)))"
proof -
  let ?key = "jumpKey p ow r"
  have start: "recordJump p ow r T m ?key = Some T" by (simp add: recordJump_def)
  have young: "isRecentJump p ow r t m' = (True, m')"
    if "T < t \<and> t < T + 5000 \<and> (\<forall>e \<in> set evs. event_time e \<le> t)"
  proof -
    from that have "\<forall>e \<in> set evs. event_time e < T + 5000" by auto
    with ledger_run_young[of "recordJump p ow r T m" ?key T evs] start assms
    have "m' ?key = Some T" by auto
    with that assms(1) show ?thesis by (simp add: isRecentJump_def Let_def)
  qed
  have old: "isRecentJump p ow r t m' = (False, m'(?key := None))" if "T + 5000 \<le> t"
  proof -
    from ledger_run_same_or_absent[of "recordJump p ow r T m" ?key T evs] start assms(2,3)
    have "m' ?key = Some T \<or> m' ?key = None" by auto
    then show ?thesis
    proof
      assume "m' ?key = Some T"
      with that assms(1) show ?thesis by (simp add: isRecentJump_def Let_def)
    next
      assume n: "m' ?key = None"
      then have "m'(?key := None) = m'" by (rule fun_upd_idem)
      with n show ?thesis by (simp add: isRecentJump_def Let_def)
    qed
  qed
  have lazy: "isRecentJump p ow r t m0 = (False, m0(?key := None))"
    if "m0 ?key = Some T0 \<and> T0 \<noteq> 0 \<and> T0 + 5000 \<le> t"
    using that by (simp add: isRecentJump_def Let_def)
  show ?thesis using young old lazy by blast
qed

theorem guard_suppression_witness:
  "isRecentJump ''github'' ''o'' ''r'' 4999
     (ledger_run [Check ''github'' ''o'' ''r'' 2000, Record ''gitlab'' ''o'' ''r'' 2500,
                  Purge ''github:a/b'' 3000]
        (recordJump ''github'' ''o'' ''r'' 1 Map.empty))
   = (True, [''github:o/r'' \<mapsto> 1, ''gitlab:o/r'' \<mapsto> 2500])
   \<and> isRecentJump ''github'' ''o'' ''r'' 5001
     (ledger_run [Check ''github'' ''o'' ''r'' 2000, Record ''gitlab'' ''o'' ''r'' 2500,
                  Purge ''github:a/b'' 3000]
        (recordJump ''github'' ''o'' ''r'' 1 Map.empty))
   = (False, [''gitlab:o/r'' \<mapsto> 2500])"
proof -
  let ?evs = "[Check ''github'' ''o'' ''r'' 2000, Record ''gitlab'' ''o'' ''r'' 2500,
                  Purge ''github:a/b'' 3000]"
  let ?m' = "ledger_run ?evs (recordJump ''github'' ''o'' ''r'' 1 Map.empty)"
  have m': "?m' = [''github:o/r'' \<mapsto> 1, ''gitlab:o/r'' \<mapsto> 2500]"
    by (simp add: recordJump_def isRecentJump_def purgeJump_def jumpKey_def Let_def)
  have a: "(1::int) \<noteq> 0" by simp
  have b: "\<forall>e \<in> set ?evs. \<not> records_key (jumpKey ''github'' ''o'' ''r'') e"
    by (simp add: jumpKey_def)
  have c: "(1::int) < 4999 \<and> (4999::int) < 1 + 5000 \<and> (\<forall>e \<in> set ?evs. event_time e \<le> 4999)"
    by simp
  have d: "(1::int) + 5000 \<le> 5001" by simp
  from guard_suppression[OF a b refl, of 4999 Map.empty] c
  have 1: "isRecentJump ''github'' ''o'' ''r'' 4999 ?m' = (True, ?m')" by blast
  from guard_suppression[OF a b refl, of 5001 Map.empty] d
  have 2: "isRecentJump ''github'' ''o'' ''r'' 5001 ?m'
             = (False, ?m'(jumpKey ''github'' ''o'' ''r'' := None))" by blast
  have 3: "[''github:o/r'' \<mapsto> (1::int), ''gitlab:o/r'' \<mapsto> 2500](jumpKey ''github'' ''o'' ''r'' := None)
        = [''gitlab:o/r'' \<mapsto> 2500]"
    by (rule ext) (simp add: jumpKey_def)
  show ?thesis using 1 2 3 unfolding m' by simp
qed

text \<open>
  At the clock reading 0 the test \<open>!lastJump\<close> takes the entry for a missing one: a
  jump recorded in the first millisecond of 1970 is not seen as recent.
\<close>

lemma isRecentJump_epoch:
  "isRecentJump p ow r 1 (recordJump p ow r 0 m) = (False, recordJump p ow r 0 m)"
  by (simp add: isRecentJump_def recordJump_def Let_def)

end
